(* ===== verification/OpBox_Prelude.thy ===== *)
theory OpBox_Prelude
  imports Main "HOL-Library.Word"
begin

text \<open>
  Shared vocabulary of the OpBox serial library model: the machine types of the
  AVR target (\<open>char\<close> and \<open>uint8_t\<close> as 8-bit words, \<open>unsigned long\<close> as a 32-bit
  word, \<open>int\<close> as a mathematical integer whose 16-bit range is a proved bound),
  C strings inside \<open>char\<close> arrays, the checked array store that turns an
  out-of-range write into a fault value, and the word and list facts that the
  component theories use through the collections declared here.
\<close>

unbundle bit_operations_syntax

section \<open>Machine types\<close>

type_synonym byte = "8 word"
type_synonym ulong = "32 word"
type_synonym long = "32 word"

named_theorems wire_defs "the marker bytes and capacity of the wire format"
named_theorems serial_defs "unfoldings of the serial port operations"
named_theorems send_defs "unfoldings of the packet senders"

section \<open>Faults\<close>

text \<open>
  The source has no error returns. What C leaves undefined is a value of
  \<open>fault\<close> in the model: a write or read outside an array, incrementing a
  16-bit \<open>int\<close> beyond \<open>INT_MAX\<close>, leaving a non-\<open>void\<close> function without
  \<open>return\<close>, and returning a variable that was never assigned.
\<close>

datatype fault = BufferOverrun | IntOverflow | NoReturnValue | IndeterminateValue

definition INT_MAX :: int where
  "INT_MAX = 32767"

definition incr :: "int \<Rightarrow> fault + int" where
  "incr i = (if i < INT_MAX then Inr (i + 1) else Inl IntOverflow)"

definition store :: "byte list \<Rightarrow> int \<Rightarrow> byte \<Rightarrow> fault + byte list" where
  "store a i v = (if 0 \<le> i \<and> i < int (length a) then Inr (a[nat i := v]) else Inl BufferOverrun)"

definition fetch :: "byte list \<Rightarrow> int \<Rightarrow> fault + byte" where
  "fetch a i = (if 0 \<le> i \<and> i < int (length a) then Inr (a ! nat i) else Inl BufferOverrun)"

section \<open>C strings\<close>

definition cstr :: "byte list \<Rightarrow> byte list" where
  "cstr a = takeWhile (\<lambda>c. c \<noteq> 0) a"

definition strlen :: "byte list \<Rightarrow> int" where
  "strlen a = int (length (cstr a))"

definition bytes_of :: "string \<Rightarrow> byte list" where
  "bytes_of cs = map (\<lambda>c. word_of_nat (of_char c)) cs"

definition no_nul :: "byte list \<Rightarrow> bool" where
  "no_nul xs \<longleftrightarrow> list_all (\<lambda>c. c \<noteq> 0) xs"

section \<open>Facts about C strings\<close>

lemma no_nul_iff [simp]: "no_nul xs \<longleftrightarrow> 0 \<notin> set xs"
  by (auto simp: no_nul_def list_all_iff)

lemma cstr_Nil [simp]: "cstr [] = []"
  by (simp add: cstr_def)

lemma cstr_Cons [simp]: "cstr (c # cs) = (if c = 0 then [] else c # cstr cs)"
  by (simp add: cstr_def)

lemma cstr_no_nul [simp]: "0 \<notin> set xs \<Longrightarrow> cstr xs = xs"
  by (induction xs) auto

lemma cstr_terminated [simp]: "0 \<notin> set xs \<Longrightarrow> cstr (xs @ 0 # ys) = xs"
  by (induction xs) auto

lemma cstr_idem [simp]: "cstr (cstr a) = cstr a"
  by (induction a) auto

lemma set_cstr: "0 \<notin> set (cstr a)"
  by (induction a) auto

lemma length_cstr_le: "length (cstr a) \<le> length a"
  by (induction a) auto

lemma cstr_prefix: "\<exists>ys. a = cstr a @ ys"
  unfolding cstr_def by (metis takeWhile_dropWhile_id)

lemma strlen_nonneg [simp]: "0 \<le> strlen a"
  by (simp add: strlen_def)

lemma strlen_le: "strlen a \<le> int (length a)"
  by (simp add: strlen_def length_cstr_le)

lemma strlen_terminated [simp]: "0 \<notin> set xs \<Longrightarrow> strlen (xs @ 0 # ys) = int (length xs)"
  by (simp add: strlen_def)

lemma bytes_of_simps [simp]:
  "bytes_of [] = []"
  "bytes_of (c # cs) = word_of_nat (of_char c) # bytes_of cs"
  by (simp_all add: bytes_of_def)

lemma length_bytes_of [simp]: "length (bytes_of cs) = length cs"
  by (simp add: bytes_of_def)

section \<open>Facts about the checked array access\<close>

lemma store_in_range [simp]:
  "0 \<le> i \<Longrightarrow> i < int (length a) \<Longrightarrow> store a i v = Inr (a[nat i := v])"
  by (simp add: store_def)

lemma store_out_of_range [simp]:
  "int (length a) \<le> i \<Longrightarrow> store a i v = Inl BufferOverrun"
  by (simp add: store_def)

lemma store_negative [simp]: "i < 0 \<Longrightarrow> store a i v = Inl BufferOverrun"
  by (simp add: store_def)

lemma store_Inr_iff:
  "store a i v = Inr a' \<longleftrightarrow> 0 \<le> i \<and> i < int (length a) \<and> a' = a[nat i := v]"
  by (auto simp: store_def)

lemma store_Inl_iff: "store a i v = Inl e \<longleftrightarrow> e = BufferOverrun \<and> (i < 0 \<or> int (length a) \<le> i)"
  by (auto simp: store_def)

lemma store_length: "store a i v = Inr a' \<Longrightarrow> length a' = length a"
  by (auto simp: store_Inr_iff)

lemma fetch_in_range [simp]:
  "0 \<le> i \<Longrightarrow> i < int (length a) \<Longrightarrow> fetch a i = Inr (a ! nat i)"
  by (simp add: fetch_def)

lemma fetch_out_of_range [simp]: "int (length a) \<le> i \<Longrightarrow> fetch a i = Inl BufferOverrun"
  by (simp add: fetch_def)

lemma fetch_Inr_iff: "fetch a i = Inr v \<longleftrightarrow> 0 \<le> i \<and> i < int (length a) \<and> v = a ! nat i"
  by (auto simp: fetch_def)

lemma incr_in_range [simp]: "i < INT_MAX \<Longrightarrow> incr i = Inr (i + 1)"
  by (simp add: incr_def)

lemma incr_Inr_iff: "incr i = Inr j \<longleftrightarrow> i < INT_MAX \<and> j = i + 1"
  by (auto simp: incr_def)

lemma incr_Inl_iff: "incr i = Inl e \<longleftrightarrow> INT_MAX \<le> i \<and> e = IntOverflow"
  by (auto simp: incr_def)

section \<open>Facts about lists used as arrays\<close>

lemma take_Suc_update:
  "i < length a \<Longrightarrow> take (Suc i) (a[i := v]) = take i a @ [v]"
  by (simp add: take_Suc_conv_app_nth)

lemma update_append_fill:
  "length pre = i \<Longrightarrow> (pre @ x # post)[i := v] = pre @ v # post"
  by (simp add: list_update_append)

lemma replicate_update_prefix:
  "length xs = i \<Longrightarrow> i < n \<Longrightarrow>
   (xs @ replicate (n - i) z)[i := v] = (xs @ [v]) @ replicate (n - Suc i) z"
  by (cases "n - i") (auto simp: list_update_append Suc_diff_Suc)

lemma first_split_unique:
  "x \<notin> set xs \<Longrightarrow> x \<notin> set xs' \<Longrightarrow> xs @ x # ys = xs' @ x # ys' \<Longrightarrow> xs = xs' \<and> ys = ys'"
proof (induction xs arbitrary: xs')
  case Nil
  then show ?case by (cases xs') auto
next
  case (Cons a xs)
  then show ?case by (cases xs') auto
qed

section \<open>Facts about bytes and words\<close>

lemma and_ff: "(x :: 'a::len word) AND 0xff = take_bit 8 x"
proof -
  have "(0xff :: 'a word) = mask 8"
    by (simp add: mask_eq_exp_minus_1)
  then show ?thesis
    by (simp add: take_bit_eq_mask)
qed

lemma uint_byte_range: "0 \<le> uint (b :: byte) \<and> uint b < 256"
  using uint_bounded [of b] by simp

lemma sint_small_byte: "uint (m :: byte) < 128 \<Longrightarrow> sint m = uint m"
proof -
  assume small: "uint m < 128"
  then have "take_bit 7 (uint m) = uint m"
    by (simp add: take_bit_int_eq_self)
  moreover from small have "\<not> bit (uint m) 7"
    by (simp add: bit_iff_odd)
  ultimately show ?thesis
    by (simp add: sint_uint signed_take_bit_eq_if_positive)
qed

lemma read_eq_marker: "uint (m :: byte) < 128 \<Longrightarrow> uint b = sint m \<longleftrightarrow> b = m"
  by (auto simp: sint_small_byte intro: word_uint_eqI)

end
