(* ===== verification/Serial_Port.thy ===== *)
theory Serial_Port
  imports OpBox_Prelude
begin

text \<open>
  The byte channel the library talks through: the Arduino \<open>Serial\<close> object and
  \<open>delay\<close>. Its code is not part of the repository, so this theory is a model of
  the interface the source relies on: a receive queue read with
  \<open>available\<close>/\<open>read\<close>, a transmit queue filled by \<open>write\<close> and emptied onto the
  wire by \<open>flush\<close>, and a peer whose future deliveries are a script of chunks,
  one chunk per waiting period. A character array handed to \<open>write\<close> is
  written up to its first zero; an array without a zero is written whole,
  where the C code would read on past its end, so the senders are modelled
  for terminated strings. The lemmas say which fields each operation
  touches, so that the senders and the decoder can be reasoned about field by
  field.
\<close>

section \<open>State of the port\<close>

record serial =
  rx :: "byte list"
  txq :: "byte list"
  wire :: "byte list"
  incoming :: "byte list list"
  elapsed :: nat

definition emitted :: "serial \<Rightarrow> byte list" where
  "emitted s = wire s @ txq s"

definition pending :: "serial \<Rightarrow> byte list" where
  "pending s = rx s @ concat (incoming s)"

definition idle_port :: serial where
  "idle_port = \<lparr>rx = [], txq = [], wire = [], incoming = [], elapsed = 0\<rparr>"

definition receiving :: "byte list \<Rightarrow> serial" where
  "receiving bs = idle_port\<lparr>rx := bs\<rparr>"

definition scripted :: "byte list list \<Rightarrow> serial" where
  "scripted cs = idle_port\<lparr>incoming := cs\<rparr>"

section \<open>Operations\<close>

definition Serial_available :: "serial \<Rightarrow> int" where
  [serial_defs]: "Serial_available s = int (length (rx s))"

definition Serial_read :: "serial \<Rightarrow> int \<times> serial" where
  [serial_defs]: "Serial_read s = (case rx s of [] \<Rightarrow> (- 1, s) | b # bs \<Rightarrow> (uint b, s\<lparr>rx := bs\<rparr>))"

definition Serial_write :: "byte \<Rightarrow> serial \<Rightarrow> serial" where
  [serial_defs]: "Serial_write b s = s\<lparr>txq := txq s @ [b]\<rparr>"

definition Serial_write_str :: "byte list \<Rightarrow> serial \<Rightarrow> serial" where
  [serial_defs]: "Serial_write_str str s = s\<lparr>txq := txq s @ cstr str\<rparr>"

definition Serial_write_char :: "byte \<Rightarrow> serial \<Rightarrow> serial" where
  [serial_defs]: "Serial_write_char c s = Serial_write (word_of_int (sint c)) s"

definition Serial_write_ulong :: "ulong \<Rightarrow> serial \<Rightarrow> serial" where
  [serial_defs]: "Serial_write_ulong n s = Serial_write (ucast n) s"

definition Serial_write_long :: "long \<Rightarrow> serial \<Rightarrow> serial" where
  [serial_defs]: "Serial_write_long n s = Serial_write (ucast n) s"

definition Serial_flush :: "serial \<Rightarrow> serial" where
  [serial_defs]: "Serial_flush s = s\<lparr>wire := wire s @ txq s, txq := []\<rparr>"

definition tick :: "serial \<Rightarrow> serial" where
  [serial_defs]: "tick s =
     (case incoming s of
        [] \<Rightarrow> s\<lparr>wire := wire s @ txq s, txq := []\<rparr>
      | c # cs \<Rightarrow> s\<lparr>rx := rx s @ c, incoming := cs, wire := wire s @ txq s, txq := []\<rparr>)"

definition delay :: "nat \<Rightarrow> serial \<Rightarrow> serial" where
  [serial_defs]: "delay ms s = (tick s)\<lparr>elapsed := elapsed s + ms\<rparr>"

definition cost :: "serial \<Rightarrow> nat" where
  "cost s = length (rx s) + sum_list (map (\<lambda>c. Suc (length c)) (incoming s))"

section \<open>What each operation touches\<close>

lemma available_receiving [simp]: "Serial_available (receiving bs) = int (length bs)"
  by (simp add: Serial_available_def receiving_def idle_port_def)

lemma available_pos_iff: "0 < Serial_available s \<longleftrightarrow> rx s \<noteq> []"
  by (simp add: Serial_available_def)

lemma available_nonneg [simp]: "0 \<le> Serial_available s"
  by (simp add: Serial_available_def)

lemma read_empty: "rx s = [] \<Longrightarrow> Serial_read s = (- 1, s)"
  by (simp add: Serial_read_def)

lemma read_Cons: "rx s = b # bs \<Longrightarrow> Serial_read s = (uint b, s\<lparr>rx := bs\<rparr>)"
  by (simp add: Serial_read_def)

lemma read_range: "- 1 \<le> fst (Serial_read s) \<and> fst (Serial_read s) < 256"
proof (cases "rx s")
  case Nil
  then show ?thesis by (simp add: Serial_read_def)
next
  case (Cons b bs)
  have "- 1 \<le> uint b" "uint b < 256"
    using uint_byte_range [of b] uint_nonnegative [of b] by arith+
  with Cons show ?thesis by (simp add: Serial_read_def)
qed

lemma read_available:
  "0 < Serial_available s \<Longrightarrow>
   Serial_read s = (uint (hd (rx s)), s\<lparr>rx := tl (rx s)\<rparr>)"
  by (cases "rx s") (simp_all add: Serial_available_def Serial_read_def)

lemma write_fields [simp]:
  "rx (Serial_write b s) = rx s"
  "txq (Serial_write b s) = txq s @ [b]"
  "wire (Serial_write b s) = wire s"
  "incoming (Serial_write b s) = incoming s"
  "elapsed (Serial_write b s) = elapsed s"
  by (simp_all add: Serial_write_def)

text \<open>
  A \<open>char\<close> argument reaches \<open>write(int)\<close> sign-extended and is cut back to its
  low eight bits there, so it is written unchanged.
\<close>

lemma write_char_eq [simp]: "Serial_write_char c s = Serial_write c s"
  by (simp add: Serial_write_char_def)

lemma write_str_fields [simp]:
  "rx (Serial_write_str str s) = rx s"
  "txq (Serial_write_str str s) = txq s @ cstr str"
  "wire (Serial_write_str str s) = wire s"
  "incoming (Serial_write_str str s) = incoming s"
  "elapsed (Serial_write_str str s) = elapsed s"
  by (simp_all add: Serial_write_str_def)

lemma flush_fields [simp]:
  "rx (Serial_flush s) = rx s"
  "txq (Serial_flush s) = []"
  "wire (Serial_flush s) = wire s @ txq s"
  "incoming (Serial_flush s) = incoming s"
  "elapsed (Serial_flush s) = elapsed s"
  by (simp_all add: Serial_flush_def)

lemma tick_fields [simp]:
  "txq (tick s) = []"
  "wire (tick s) = wire s @ txq s"
  "elapsed (tick s) = elapsed s"
  by (simp_all add: tick_def split: list.split)

lemma tick_Nil: "incoming s = [] \<Longrightarrow> rx (tick s) = rx s \<and> incoming (tick s) = []"
  by (simp add: tick_def)

lemma tick_Cons: "incoming s = c # cs \<Longrightarrow> rx (tick s) = rx s @ c \<and> incoming (tick s) = cs"
  by (simp add: tick_def)

lemma delay_fields [simp]:
  "rx (delay ms s) = rx (tick s)"
  "incoming (delay ms s) = incoming (tick s)"
  "txq (delay ms s) = []"
  "wire (delay ms s) = wire s @ txq s"
  "elapsed (delay ms s) = elapsed s + ms"
  by (simp_all add: delay_def)

section \<open>The stream is what matters\<close>

text \<open>
  No operation reorders bytes: what the program has emitted and what it will
  still receive are streams, and only \<open>read\<close> consumes input.
\<close>

lemma emitted_write [simp]: "emitted (Serial_write b s) = emitted s @ [b]"
  by (simp add: emitted_def)

lemma emitted_write_str [simp]: "emitted (Serial_write_str str s) = emitted s @ cstr str"
  by (simp add: emitted_def)

lemma emitted_flush [simp]: "emitted (Serial_flush s) = emitted s"
  by (simp add: emitted_def)

lemma emitted_tick [simp]: "emitted (tick s) = emitted s"
  by (simp add: emitted_def)

lemma emitted_delay [simp]: "emitted (delay ms s) = emitted s"
  by (simp add: emitted_def)

lemma pending_write [simp]: "pending (Serial_write b s) = pending s"
  by (simp add: pending_def)

lemma pending_write_str [simp]: "pending (Serial_write_str str s) = pending s"
  by (simp add: pending_def)

lemma pending_flush [simp]: "pending (Serial_flush s) = pending s"
  by (simp add: pending_def)

lemma pending_tick [simp]: "pending (tick s) = pending s"
  by (simp add: pending_def tick_def split: list.split)

lemma pending_delay [simp]: "pending (delay ms s) = pending s"
  by (simp add: pending_def tick_def delay_def split: list.split)

lemma pending_read:
  "0 < Serial_available s \<Longrightarrow> pending s = hd (rx s) # pending (snd (Serial_read s))"
  by (cases "rx s") (simp_all add: pending_def Serial_available_def Serial_read_def)

lemma pending_receiving [simp]: "pending (receiving bs) = bs"
  by (simp add: pending_def receiving_def idle_port_def)

lemma emitted_receiving [simp]: "emitted (receiving bs) = []"
  by (simp add: emitted_def receiving_def idle_port_def)

lemma emitted_idle [simp]: "emitted idle_port = []"
  by (simp add: emitted_def idle_port_def)

lemma pending_idle [simp]: "pending idle_port = []"
  by (simp add: pending_def idle_port_def)

lemma pending_scripted [simp]: "pending (scripted cs) = concat cs"
  by (simp add: pending_def scripted_def idle_port_def)

lemma emitted_scripted [simp]: "emitted (scripted cs) = []"
  by (simp add: emitted_def scripted_def idle_port_def)

section \<open>The measure of the polling loops\<close>

lemma cost_write [simp]: "cost (Serial_write b s) = cost s"
  by (simp add: cost_def)

lemma cost_write_str [simp]: "cost (Serial_write_str str s) = cost s"
  by (simp add: cost_def)

lemma cost_flush [simp]: "cost (Serial_flush s) = cost s"
  by (simp add: cost_def)

lemma cost_read: "0 < Serial_available s \<Longrightarrow> cost (snd (Serial_read s)) < cost s"
  by (cases "rx s") (simp_all add: cost_def Serial_available_def Serial_read_def)

lemma cost_tick: "incoming s \<noteq> [] \<Longrightarrow> cost (tick s) < cost s"
  by (cases "incoming s") (simp_all add: cost_def tick_def)

lemma cost_delay: "incoming s \<noteq> [] \<Longrightarrow> cost (delay ms s) < cost s"
  by (cases "incoming s") (simp_all add: cost_def tick_def delay_def)

lemma cost_delay_write: "incoming s \<noteq> [] \<Longrightarrow> cost (delay ms (Serial_write b s)) < cost s"
  using cost_delay [of "Serial_write b s" ms] by simp

end
