(* ===== verification/Wire_Format.thy ===== *)
theory Wire_Format
  imports OpBox_Prelude
begin

text \<open>
  The constants at the head of the source file (the five marker bytes and the
  buffer capacity) and the grammar of one packet on the wire, \<open>frame\<close>: start
  marker, label, type marker, payload, end marker. The lemmas are the facts about
  the markers that the decoder's case analysis needs: they are distinct, they
  are positive as signed \<open>char\<close>s, and none of them is the string terminator.
\<close>

section \<open>Constants of the source\<close>

definition PACKET_START :: byte where
  [wire_defs]: "PACKET_START = 0x3C"

definition PACKET_INT :: byte where
  [wire_defs]: "PACKET_INT = 0x7C"

definition PACKET_INT2 :: byte where
  [wire_defs]: "PACKET_INT2 = 0x7E"

definition PACKET_CHAR :: byte where
  [wire_defs]: "PACKET_CHAR = 0x40"

definition PACKET_END :: byte where
  [wire_defs]: "PACKET_END = 0x3E"

definition MAX_BUFFER :: int where
  [wire_defs]: "MAX_BUFFER = 100"

section \<open>One packet on the wire\<close>

definition frame :: "byte list \<Rightarrow> byte \<Rightarrow> byte list \<Rightarrow> byte list" where
  "frame label mark payload = PACKET_START # label @ mark # payload @ [PACKET_END]"

definition label_mark :: "byte \<Rightarrow> bool" where
  "label_mark b \<longleftrightarrow> b = PACKET_INT \<or> b = PACKET_CHAR"

definition plain_label :: "byte list \<Rightarrow> bool" where
  "plain_label label \<longleftrightarrow> list_all (\<lambda>b. \<not> label_mark b \<and> b \<noteq> 0) label"

definition plain_payload :: "byte list \<Rightarrow> bool" where
  "plain_payload payload \<longleftrightarrow> list_all (\<lambda>b. b \<noteq> PACKET_END) payload"

definition unmarked :: "byte list \<Rightarrow> bool" where
  "unmarked xs \<longleftrightarrow> list_all (\<lambda>b. \<not> label_mark b) xs"

section \<open>Facts about the markers\<close>

lemma markers_ascii:
  "[PACKET_START, PACKET_INT, PACKET_INT2, PACKET_CHAR, PACKET_END] = bytes_of ''<|~@>''"
  by (simp add: wire_defs)

lemma markers_distinct:
  "distinct [PACKET_START, PACKET_INT, PACKET_INT2, PACKET_CHAR, PACKET_END, 0]"
  by (simp add: wire_defs)

lemma marker_neq [simp]:
  "PACKET_START \<noteq> PACKET_INT" "PACKET_START \<noteq> PACKET_CHAR" "PACKET_START \<noteq> PACKET_END"
  "PACKET_INT \<noteq> PACKET_CHAR" "PACKET_INT \<noteq> PACKET_END" "PACKET_CHAR \<noteq> PACKET_END"
  "PACKET_INT2 \<noteq> PACKET_INT" "PACKET_INT2 \<noteq> PACKET_CHAR" "PACKET_INT2 \<noteq> PACKET_END"
  "PACKET_INT2 \<noteq> PACKET_START"
  "PACKET_INT \<noteq> PACKET_START" "PACKET_CHAR \<noteq> PACKET_START" "PACKET_END \<noteq> PACKET_START"
  "PACKET_CHAR \<noteq> PACKET_INT" "PACKET_END \<noteq> PACKET_INT" "PACKET_END \<noteq> PACKET_CHAR"
  by (simp_all add: wire_defs)

lemma marker_nonzero [simp]:
  "PACKET_START \<noteq> 0" "PACKET_INT \<noteq> 0" "PACKET_INT2 \<noteq> 0" "PACKET_CHAR \<noteq> 0" "PACKET_END \<noteq> 0"
  by (simp_all add: wire_defs)

text \<open>
  The source compares the \<open>int\<close> returned by \<open>Serial.read\<close> with a \<open>char\<close> constant,
  which C promotes with its sign. All markers are below 128, so the comparison
  is equality of bytes.
\<close>

lemma read_is_marker [simp]:
  "uint b = sint PACKET_START \<longleftrightarrow> b = PACKET_START"
  "uint b = sint PACKET_INT \<longleftrightarrow> b = PACKET_INT"
  "uint b = sint PACKET_CHAR \<longleftrightarrow> b = PACKET_CHAR"
  "uint b = sint PACKET_END \<longleftrightarrow> b = PACKET_END"
  by (rule read_eq_marker, simp add: wire_defs)+

lemma label_mark_simps [simp]:
  "label_mark PACKET_INT" "label_mark PACKET_CHAR"
  "\<not> label_mark PACKET_INT2" "\<not> label_mark PACKET_START" "\<not> label_mark PACKET_END"
  "\<not> label_mark 0"
  by (simp_all add: label_mark_def wire_defs)

section \<open>Facts about frames\<close>

lemma length_frame [simp]: "length (frame label mark payload) = length label + length payload + 3"
  by (simp add: frame_def)

lemma frame_Nil_neq [simp]: "frame label mark payload \<noteq> []"
  by (simp add: frame_def)

lemma plain_label_iff: "plain_label label \<longleftrightarrow> (\<forall>b \<in> set label. \<not> label_mark b \<and> b \<noteq> 0)"
  by (simp add: plain_label_def list_all_iff)

lemma plain_payload_iff: "plain_payload payload \<longleftrightarrow> PACKET_END \<notin> set payload"
  by (auto simp: plain_payload_def list_all_iff)

lemma plain_label_Nil [simp]: "plain_label []"
  by (simp add: plain_label_def)

lemma plain_label_Cons [simp]:
  "plain_label (b # bs) \<longleftrightarrow> \<not> label_mark b \<and> b \<noteq> 0 \<and> plain_label bs"
  by (simp add: plain_label_def)

lemma plain_payload_Nil [simp]: "plain_payload []"
  by (simp add: plain_payload_def)

lemma plain_payload_Cons [simp]:
  "plain_payload (b # bs) \<longleftrightarrow> b \<noteq> PACKET_END \<and> plain_payload bs"
  by (simp add: plain_payload_def)

lemma unmarked_simps [simp]:
  "unmarked []"
  "unmarked (b # bs) \<longleftrightarrow> \<not> label_mark b \<and> unmarked bs"
  "unmarked (xs @ ys) \<longleftrightarrow> unmarked xs \<and> unmarked ys"
  by (simp_all add: unmarked_def)

lemma plain_label_unmarked: "plain_label xs \<Longrightarrow> unmarked xs"
  by (induction xs) auto

lemma plain_label_no_nul: "plain_label xs \<Longrightarrow> 0 \<notin> set xs"
  by (simp add: plain_label_iff) blast

lemma plain_label_cstr: "plain_label label \<Longrightarrow> cstr label = label"
  by (simp add: plain_label_iff) (metis cstr_no_nul)

end
