(* ===== verification/Int_Codec.thy ===== *)
theory Int_Codec
  imports Serial_Port
begin

text \<open>
  The integer codec: \<open>SerialWriteLongInt\<close> of the source, which writes an
  \<open>unsigned long\<close> as four bytes, and the abstract functions \<open>Encode32\<close> and
  \<open>Decode32\<close> that it is measured against. The lemmas show that the writer emits
  exactly \<open>Encode32\<close>, that the encoding is big-endian in the arithmetic sense,
  and that encoding and decoding are inverse to each other in both directions.
\<close>

section \<open>The writer of the source\<close>

definition SerialWriteLongInt :: "ulong \<Rightarrow> serial \<Rightarrow> serial" where
  "SerialWriteLongInt val s0 =
     (let s1 = Serial_write_ulong (drop_bit 24 val AND 0xff) s0;
          s2 = Serial_write_ulong (drop_bit 16 val AND 0xff) s1;
          s3 = Serial_write_ulong (drop_bit 8 val AND 0xff) s2;
          s4 = Serial_write_ulong (val AND 0xff) s3
      in s4)"

section \<open>The abstract codec\<close>

definition byte_at :: "nat \<Rightarrow> ulong \<Rightarrow> byte" where
  "byte_at k v = ucast (drop_bit k v AND 0xff)"

definition Encode32 :: "ulong \<Rightarrow> byte list" where
  "Encode32 v = [byte_at 24 v, byte_at 16 v, byte_at 8 v, byte_at 0 v]"

definition shift_in :: "ulong \<Rightarrow> byte \<Rightarrow> ulong" where
  "shift_in acc b = push_bit 8 acc OR ucast b"

definition Decode32 :: "byte list \<Rightarrow> ulong option" where
  "Decode32 bs = (if length bs = 4 then Some (foldl shift_in 0 bs) else None)"

section \<open>Bits of a byte and of a shift\<close>

lemma bit_byte_at: "bit (byte_at k v) n \<longleftrightarrow> n < 8 \<and> bit v (k + n)"
  by (auto simp: byte_at_def and_ff bit_simps)

lemma bit_shift_in:
  "bit (shift_in acc b) n \<longleftrightarrow> n < 32 \<and> (if n < 8 then bit b n else bit acc (n - 8))"
  by (auto simp: shift_in_def bit_simps dest: bit_imp_le_length)

lemma shift_in_byte_at:
  "k + 8 \<le> 32 \<Longrightarrow> shift_in (drop_bit (k + 8) v) (byte_at k v) = drop_bit k v"
  by (rule bit_word_eqI) (simp add: bit_shift_in bit_byte_at bit_simps)

lemma byte_at_shift_in_low [simp]: "byte_at 0 (shift_in acc b) = b"
  by (rule bit_word_eqI) (simp add: bit_shift_in bit_byte_at)

lemma byte_at_shift_in_high:
  "k \<le> 16 \<Longrightarrow> byte_at (k + 8) (shift_in acc b) = byte_at k acc"
  by (rule bit_word_eqI) (auto simp: bit_shift_in bit_byte_at dest: bit_imp_le_length)

lemmas byte_at_shift_ins =
  byte_at_shift_in_high [of 16] byte_at_shift_in_high [of 8] byte_at_shift_in_high [of 0]

lemmas shift_in_byte_ats =
  shift_in_byte_at [of 24] shift_in_byte_at [of 16] shift_in_byte_at [of 8] shift_in_byte_at [of 0]

lemma unat_byte_less: "unat (b :: byte) < 256"
  using unsigned_less [of b, where 'a = nat] by simp

section \<open>The value of a big-endian byte sequence\<close>

definition be_value :: "byte list \<Rightarrow> nat" where
  "be_value bs = foldl (\<lambda>n b. n * 256 + unat b) 0 bs"

lemma be_value_snoc [simp]: "be_value (bs @ [b]) = be_value bs * 256 + unat b"
  by (simp add: be_value_def)

lemma be_value_bound: "be_value bs < 256 ^ length bs"
proof (induction bs rule: rev_induct)
  case Nil
  then show ?case by (simp add: be_value_def)
next
  case (snoc b bs)
  from snoc have "be_value bs + 1 \<le> 256 ^ length bs"
    by simp
  then have "(be_value bs + 1) * 256 \<le> 256 ^ length bs * 256"
    by (rule mult_le_mono1)
  then show ?case
    using unat_byte_less [of b] by simp
qed

lemma push_or_nat: "m < 256 \<Longrightarrow> push_bit 8 (n::nat) OR m = n * 256 + m"
proof -
  assume m: "m < 256"
  have "push_bit 8 n + m = push_bit 8 n OR m"
  proof (rule disjunctive_add)
    fix k
    show "\<not> bit (push_bit 8 n) k \<or> \<not> bit m k"
    proof (cases "k < 8")
      case True
      then show ?thesis by (simp add: bit_push_bit_iff)
    next
      case False
      then have "(2::nat) ^ 8 \<le> 2 ^ k"
        by (intro power_increasing) simp_all
      with m have "m < 2 ^ k"
        by simp
      then show ?thesis by (simp add: bit_iff_odd)
    qed
  qed
  then show ?thesis by (simp add: push_bit_eq_mult)
qed

lemma unat_shift_in:
  "unat acc < 2 ^ 24 \<Longrightarrow> unat (shift_in acc b) = unat acc * 256 + unat b"
proof -
  assume "unat acc < 2 ^ 24"
  then have "unat acc * 256 < 2 ^ 32"
    by simp
  then have "take_bit 32 (push_bit 8 (unat acc)) = push_bit 8 (unat acc)"
    by (simp add: take_bit_nat_eq_self push_bit_eq_mult)
  then show ?thesis
    using unat_byte_less [of b]
    by (simp add: shift_in_def unsigned_or_eq unsigned_push_bit_eq unsigned_ucast_eq push_or_nat
        take_bit_nat_eq_self)
qed

lemma unat_foldl_shift_in:
  "length bs \<le> 4 \<Longrightarrow> unat (foldl shift_in 0 bs) = be_value bs"
proof (induction bs rule: rev_induct)
  case Nil
  then show ?case by (simp add: be_value_def)
next
  case (snoc b bs)
  then have IH: "unat (foldl shift_in 0 bs) = be_value bs" and len: "length bs \<le> 3"
    by simp_all
  have "be_value bs < 256 ^ length bs"
    by (rule be_value_bound)
  also have "\<dots> \<le> 256 ^ 3"
    using len by (intro power_increasing) simp_all
  finally have "unat (foldl shift_in 0 bs) < 2 ^ 24"
    using IH by simp
  then show ?case
    by (simp add: unat_shift_in IH)
qed

section \<open>Shape of the encoding\<close>

lemma length_Encode32 [simp]: "length (Encode32 v) = 4"
  by (simp add: Encode32_def)

lemma Decode32_length: "Decode32 bs = Some v \<Longrightarrow> length bs = 4"
  by (simp add: Decode32_def split: if_splits)

lemma Decode32_wrong_length [simp]: "length bs \<noteq> 4 \<Longrightarrow> Decode32 bs = None"
  by (simp add: Decode32_def)

lemma WriteLongInt_fields [simp]:
  "rx (SerialWriteLongInt v s) = rx s"
  "txq (SerialWriteLongInt v s) = txq s @ Encode32 v"
  "wire (SerialWriteLongInt v s) = wire s"
  "incoming (SerialWriteLongInt v s) = incoming s"
  "elapsed (SerialWriteLongInt v s) = elapsed s"
  by (simp_all add: SerialWriteLongInt_def Encode32_def byte_at_def Serial_write_ulong_def Let_def)

lemma foldl_shift_in_Encode32: "foldl shift_in 0 (Encode32 v) = v"
  using shift_in_byte_ats [of v] by (simp add: Encode32_def)

lemma Decode32_eq_Encode32: "bs = Encode32 v \<Longrightarrow> Decode32 bs = Some v"
  by (simp add: Decode32_def foldl_shift_in_Encode32)

section \<open>Properties\<close>

text \<open>
  The bytes written. \<open>SerialWriteLongInt\<close> appends to the stream of emitted bytes exactly the four
  bytes \<open>Encode32 val\<close>, most significant first, and consumes no input.
\<close>

theorem SerialWriteLongInt_emits:
  "emitted (SerialWriteLongInt val s) = emitted s @ Encode32 val
   \<and> pending (SerialWriteLongInt val s) = pending s"
  by (simp add: emitted_def pending_def)

text \<open>
  C4: Decoding the four bytes that encode a 32-bit value gives the value back,
  for every value.
\<close>

theorem Decode32_Encode32: "Decode32 (Encode32 v) = Some v"
  by (simp add: Decode32_def foldl_shift_in_Encode32)

text \<open>
  The converse round trip. Whenever a byte sequence decodes to a value, encoding that value gives the
  same four bytes: no two byte sequences decode to the same value.
\<close>

theorem Encode32_Decode32: "Decode32 bs = Some v \<Longrightarrow> Encode32 v = bs"
proof -
  assume dec: "Decode32 bs = Some v"
  then have "length bs = 4"
    by (rule Decode32_length)
  then obtain a b c d where bs: "bs = [a, b, c, d]"
    by (auto simp: length_Suc_conv eval_nat_numeral)
  with dec have "v = shift_in (shift_in (shift_in (shift_in 0 a) b) c) d"
    by (simp add: Decode32_def)
  then show ?thesis
    using byte_at_shift_ins by (simp add: Encode32_def bs)
qed

theorem Encode32_Decode32_witness:
  "Decode32 [0x12, 0x34, 0x56, 0x78] = Some 0x12345678
   \<and> Encode32 0x12345678 = [0x12, 0x34, 0x56, 0x78]"
proof -
  have dec: "Decode32 [0x12, 0x34, 0x56, 0x78] = Some 0x12345678"
    by (simp add: Decode32_def shift_in_def)
  from dec Encode32_Decode32 [OF dec] show ?thesis by simp
qed

text \<open>
  C35: The encoding is big-endian. Read as a base-256 numeral, most significant
  digit first, the four bytes of \<open>Encode32 v\<close>, which are the bytes that
  \<open>SerialWriteLongInt\<close> writes, denote the unsigned value of \<open>v\<close>.
\<close>

theorem be_value_Encode32: "be_value (Encode32 v) = unat v"
  using unat_foldl_shift_in [of "Encode32 v"] by (simp add: foldl_shift_in_Encode32)

end
