(* ===== verification/Packet_Encoder.thy ===== *)
theory Packet_Encoder
  imports Wire_Format Int_Codec
begin

text \<open>
  The packet senders of the source, \<open>SerialSendInt\<close>, \<open>SerialSendIntPair\<close>,
  \<open>SerialSendChar\<close>, \<open>SerialSendCharPair\<close>, \<open>SerialSendErrorText\<close> and
  \<open>SerialSendErrorNumAsText\<close>, each as the sequence of writes it performs followed
  by the flush. The lemmas give, for every sender, the one frame it puts on the
  wire and the fields of the port it leaves alone.
\<close>

section \<open>The senders of the source\<close>

definition SerialSendInt :: "byte list \<Rightarrow> ulong \<Rightarrow> serial \<Rightarrow> serial" where
  [send_defs]: "SerialSendInt text ts s0 =
     (let s1 = Serial_write_char PACKET_START s0;
          s2 = Serial_write_str text s1;
          s3 = Serial_write_char PACKET_INT s2;
          s4 = SerialWriteLongInt ts s3;
          s5 = Serial_write_char PACKET_END s4
      in Serial_flush s5)"

definition SerialSendIntPair :: "byte list \<Rightarrow> ulong \<Rightarrow> ulong \<Rightarrow> serial \<Rightarrow> serial" where
  [send_defs]: "SerialSendIntPair text int1 int2 s0 =
     (let s1 = Serial_write_char PACKET_START s0;
          s2 = Serial_write_str text s1;
          s3 = Serial_write_char PACKET_INT2 s2;
          s4 = SerialWriteLongInt int1 s3;
          s5 = SerialWriteLongInt int2 s4;
          s6 = Serial_write_char PACKET_END s5
      in Serial_flush s6)"

definition SerialSendChar :: "byte list \<Rightarrow> byte \<Rightarrow> serial \<Rightarrow> serial" where
  [send_defs]: "SerialSendChar text data s0 =
     (let s1 = Serial_write_char PACKET_START s0;
          s2 = Serial_write_str text s1;
          s3 = Serial_write_char PACKET_CHAR s2;
          s4 = Serial_write_char data s3;
          s5 = Serial_write_char PACKET_END s4
      in Serial_flush s5)"

definition SerialSendCharPair :: "byte list \<Rightarrow> byte \<Rightarrow> byte \<Rightarrow> serial \<Rightarrow> serial" where
  [send_defs]: "SerialSendCharPair text char1 char2 s0 =
     (let s1 = Serial_write_char PACKET_START s0;
          s2 = Serial_write_str text s1;
          s3 = Serial_write_char PACKET_CHAR s2;
          s4 = Serial_write_char char1 s3;
          s5 = Serial_write_char char2 s4;
          s6 = Serial_write_char PACKET_END s5
      in Serial_flush s6)"

definition SerialSendErrorText :: "byte list \<Rightarrow> serial \<Rightarrow> serial" where
  [send_defs]: "SerialSendErrorText text s0 =
     (let s1 = Serial_write_char PACKET_START s0;
          s2 = Serial_write_str (bytes_of ''Err'') s1;
          s3 = Serial_write_char PACKET_CHAR s2;
          s4 = Serial_write_str text s3;
          s5 = Serial_write_char PACKET_END s4
      in Serial_flush s5)"

definition SerialSendErrorNumAsText :: "long \<Rightarrow> serial \<Rightarrow> serial" where
  [send_defs]: "SerialSendErrorNumAsText num_data s0 =
     (let s1 = Serial_write_char PACKET_START s0;
          s2 = Serial_write_str (bytes_of ''Err'') s1;
          s3 = Serial_write_char PACKET_CHAR s2;
          s4 = Serial_write_long num_data s3;
          s5 = Serial_write_char PACKET_END s4
      in Serial_flush s5)"

section \<open>Sending one frame\<close>

text \<open>
  What all senders have in common: \<open>sends f pkt s\<close> says that from port state
  \<open>s\<close> the operation \<open>f\<close> puts everything queued and then \<open>pkt\<close> on the wire,
  leaves the transmit queue empty and touches nothing else.
\<close>

definition sends :: "(serial \<Rightarrow> serial) \<Rightarrow> byte list \<Rightarrow> serial \<Rightarrow> bool" where
  "sends f pkt s \<longleftrightarrow>
     f s = s\<lparr>wire := wire s @ txq s @ pkt, txq := []\<rparr>"

lemma sendsD:
  assumes "sends f pkt s"
  shows "wire (f s) = wire s @ txq s @ pkt" and "txq (f s) = []" and "rx (f s) = rx s"
    and "incoming (f s) = incoming s" and "elapsed (f s) = elapsed s"
    and "emitted (f s) = emitted s @ pkt" and "pending (f s) = pending s"
    and "cost (f s) = cost s"
  using assms by (simp_all add: sends_def emitted_def pending_def cost_def)

lemma Err_label [simp]: "cstr (bytes_of ''Err'') = bytes_of ''Err''"
  by simp

lemma sends_Int: "sends (SerialSendInt text ts) (frame (cstr text) PACKET_INT (Encode32 ts)) s"
  by (simp add: sends_def send_defs serial_defs SerialWriteLongInt_def frame_def Encode32_def
      byte_at_def Let_def)

lemma sends_IntPair:
  "sends (SerialSendIntPair text int1 int2)
     (frame (cstr text) PACKET_INT2 (Encode32 int1 @ Encode32 int2)) s"
  by (simp add: sends_def send_defs serial_defs SerialWriteLongInt_def frame_def Encode32_def
      byte_at_def Let_def)

lemma sends_Char: "sends (SerialSendChar text data) (frame (cstr text) PACKET_CHAR [data]) s"
  by (simp add: sends_def send_defs serial_defs frame_def Let_def)

lemma sends_CharPair:
  "sends (SerialSendCharPair text char1 char2) (frame (cstr text) PACKET_CHAR [char1, char2]) s"
  by (simp add: sends_def send_defs serial_defs frame_def Let_def)

lemma sends_ErrorText:
  "sends (SerialSendErrorText text) (frame (bytes_of ''Err'') PACKET_CHAR (cstr text)) s"
  by (simp add: sends_def send_defs serial_defs frame_def Let_def)

lemma sends_ErrorNumAsText:
  "sends (SerialSendErrorNumAsText num_data) (frame (bytes_of ''Err'') PACKET_CHAR [ucast num_data]) s"
  by (simp add: sends_def send_defs serial_defs frame_def Let_def)

lemmas sends_intros [intro, simp] =
  sends_Int sends_IntPair sends_Char sends_CharPair sends_ErrorText sends_ErrorNumAsText

lemmas sent = sendsD(6,2,7)

lemma pending_loopback:
  "sends f pkt idle_port \<Longrightarrow> pending s = emitted (f idle_port) \<Longrightarrow> pending s = pkt"
  using sendsD(6) [of f pkt idle_port] by simp

lemma ucast_plus_256: "(ucast ((n :: long) + 256) :: byte) = ucast n"
  by transfer (simp add: take_bit_eq_mod mod_mod_cancel)

lemma SerialSendInt_example:
  "emitted (SerialSendInt (bytes_of ''Ts'') 0x12345678 idle_port)
   = [0x3C, 0x54, 0x73, 0x7C, 0x12, 0x34, 0x56, 0x78, 0x3E]"
  using sent(1) [OF sends_Int]
  by (simp add: frame_def Encode32_def byte_at_def emitted_def idle_port_def wire_defs)

section \<open>Properties\<close>

text \<open>
  C3: \<open>SerialSendInt\<close> emits exactly one frame: the start marker, the label up to
  its terminator, the INT marker, the four big-endian bytes of the value and the
  end marker. When it returns the transmit queue is empty, and no input has been
  consumed.
\<close>

theorem SerialSendInt_frame:
  "emitted (SerialSendInt text ts s) = emitted s @ frame (cstr text) PACKET_INT (Encode32 ts)
   \<and> txq (SerialSendInt text ts s) = []
   \<and> pending (SerialSendInt text ts s) = pending s"
  using sent [OF sends_Int] by simp

text \<open>
  C36: Every other sender emits exactly one frame and touches nothing else.
  \<open>SerialSendIntPair\<close> sends the marker INT2 and the eight bytes of its two
  values, the first value first; \<open>SerialSendChar\<close> and \<open>SerialSendCharPair\<close> send
  the marker CHAR and their one or two data bytes; \<open>SerialSendErrorText\<close> sends
  the marker CHAR under the label \<open>Err\<close> with the message up to its terminator.
  Each appends its frame to what is on the wire behind the bytes that were
  still queued, leaves the transmit queue empty, and changes neither the
  input nor the time.
\<close>

theorem senders_one_frame:
  "sends (SerialSendIntPair text int1 int2)
     (frame (cstr text) PACKET_INT2 (Encode32 int1 @ Encode32 int2)) s
   \<and> sends (SerialSendChar text data) (frame (cstr text) PACKET_CHAR [data]) s
   \<and> sends (SerialSendCharPair text char1 char2) (frame (cstr text) PACKET_CHAR [char1, char2]) s
   \<and> sends (SerialSendErrorText text) (frame (bytes_of ''Err'') PACKET_CHAR (cstr text)) s"
  by (intro conjI sends_IntPair sends_Char sends_CharPair sends_ErrorText)

text \<open>
  C37: \<open>SerialSendErrorNumAsText\<close> does not send the number as text: the payload
  of its \<open>Err\<close> frame is the single byte holding the low eight bits of the
  number, so two numbers that differ by 256 are sent as the same packet.
\<close>

theorem SerialSendErrorNumAsText_low_byte:
  "emitted (SerialSendErrorNumAsText num_data s)
     = emitted s @ frame (bytes_of ''Err'') PACKET_CHAR [ucast num_data]
   \<and> SerialSendErrorNumAsText (num_data + 256) s = SerialSendErrorNumAsText num_data s"
  using sent(1) [OF sends_ErrorNumAsText]
  by (simp add: SerialSendErrorNumAsText_def Serial_write_long_def ucast_plus_256)

end
