(* ===== verification/Packet_Decoder.thy ===== *)
theory Packet_Decoder
  imports Packet_Encoder
begin

text \<open>
  The receiver of the source, \<open>SerialReceiveAndParsePacket\<close>: its local variables
  and the two caller-owned buffers as the record \<open>locals\<close>, one pass through the
  body of its \<open>while\<close> loop as \<open>loop_body\<close>, and the loop itself as a total
  function over the port state, whose result says whether the call returned,
  failed, or is left polling a line on which nothing more will arrive. The
  lemmas are the characteristic equations of the body, one for each branch of
  the source, the invariant of the locals, and the behaviour of the loop while
  it collects a label or a payload.
\<close>

section \<open>Local state and results\<close>

record locals =
  flag_ser_label :: bool
  flag_ser_data :: bool
  flag_ser_end :: bool
  data_type :: "byte option"
  length_label :: int
  length_data :: int
  buffer_label :: "byte list"
  buffer_data :: "byte list"

datatype outcome =
    Running locals serial
  | Returned byte locals serial
  | Failed fault

definition fresh_locals :: "byte list \<Rightarrow> byte list \<Rightarrow> locals" where
  "fresh_locals bl bd =
     \<lparr>flag_ser_label = False, flag_ser_data = False, flag_ser_end = False,
      data_type = None, length_label = 0, length_data = 0,
      buffer_label = bl, buffer_data = bd\<rparr>"

definition checked :: "fault + 'a \<Rightarrow> ('a \<Rightarrow> outcome) \<Rightarrow> outcome" where
  "checked r k = (case r of Inl e \<Rightarrow> Failed e | Inr x \<Rightarrow> k x)"

section \<open>One pass through the loop body\<close>

definition loop_body :: "locals \<Rightarrow> serial \<Rightarrow> outcome" where
  "loop_body l s0 =
     (let (inByte, s) = Serial_read s0 in
      if flag_ser_label l then
        if inByte = sint PACKET_INT \<or> inByte = sint PACKET_CHAR then
          checked (store (buffer_label l) (length_label l) 0) (\<lambda>bl.
            Running (l\<lparr>flag_ser_label := False, flag_ser_data := True, buffer_label := bl,
                       length_data := 0, data_type := Some (word_of_int inByte)\<rparr>) s)
        else
          checked (store (buffer_label l) (length_label l) (word_of_int inByte)) (\<lambda>bl.
          checked (incr (length_label l)) (\<lambda>n.
            Running (l\<lparr>buffer_label := bl, length_label := n\<rparr>) s))
      else if flag_ser_data l then
        if inByte = sint PACKET_END then
          checked (store (buffer_data l) (length_data l) 0) (\<lambda>bd.
          checked (case data_type l of None \<Rightarrow> Inl IndeterminateValue | Some t \<Rightarrow> Inr t) (\<lambda>t.
            Returned t (l\<lparr>flag_ser_data := False, flag_ser_end := True, buffer_data := bd\<rparr>) s))
        else
          checked (store (buffer_data l) (length_data l) (word_of_int inByte)) (\<lambda>bd.
          checked (incr (length_data l)) (\<lambda>n.
            Running (l\<lparr>buffer_data := bd, length_data := n\<rparr>) s))
      else if inByte = sint PACKET_START then
        Running (l\<lparr>flag_ser_label := True, length_label := 0\<rparr>) s
      else
        Running l
          (Serial_write_char (word_of_int inByte)
             (SerialSendErrorText (bytes_of ''SerInputErr'') s)))"

section \<open>The loop\<close>

definition carry_on :: "outcome \<Rightarrow> (locals \<Rightarrow> serial \<Rightarrow> outcome) \<Rightarrow> outcome" where
  "carry_on r k = (case r of Running l s \<Rightarrow> k l s | _ \<Rightarrow> r)"

lemma carry_on_cong [fundef_cong]:
  "r = r' \<Longrightarrow> (\<And>l s. r' = Running l s \<Longrightarrow> k l s = k' l s) \<Longrightarrow> carry_on r k = carry_on r' k'"
  by (auto simp: carry_on_def split: outcome.splits)

lemma body_consumes:
  "0 < Serial_available s \<Longrightarrow> loop_body l s = Running l' s' \<Longrightarrow> cost s' < cost s"
  by (cases "rx s")
    (auto simp: loop_body_def Serial_available_def Serial_read_def checked_def cost_def
      sendsD [OF sends_ErrorText] split: if_splits sum.splits)

function parse_loop :: "locals \<Rightarrow> serial \<Rightarrow> outcome" where
  "parse_loop l s =
     (if flag_ser_end l then Failed NoReturnValue
      else if 0 < Serial_available s then carry_on (loop_body l s) parse_loop
      else if incoming s = [] then Running l s
      else parse_loop l (tick s))"
  by pat_completeness auto
termination
  by (relation "measure (\<lambda>(l, s). cost s)") (auto simp: body_consumes cost_tick)

definition SerialReceiveAndParsePacket :: "byte list \<Rightarrow> byte list \<Rightarrow> serial \<Rightarrow> outcome" where
  "SerialReceiveAndParsePacket buffer_label0 buffer_data0 s =
     parse_loop (fresh_locals buffer_label0 buffer_data0) s"

declare parse_loop.simps [simp del]

section \<open>The invariant of the locals\<close>

definition wf_locals :: "locals \<Rightarrow> bool" where
  "wf_locals l \<longleftrightarrow>
     \<not> flag_ser_end l \<and> \<not> (flag_ser_label l \<and> flag_ser_data l)
     \<and> (if flag_ser_data l then (case data_type l of None \<Rightarrow> False | Some t \<Rightarrow> label_mark t)
         else True)
     \<and> 0 \<le> length_label l \<and> length_label l \<le> int (length (buffer_label l))
     \<and> 0 \<le> length_data l \<and> length_data l \<le> int (length (buffer_data l))"

definition same_buffers :: "locals \<Rightarrow> locals \<Rightarrow> bool" where
  "same_buffers l l' \<longleftrightarrow>
     length (buffer_label l') = length (buffer_label l)
     \<and> length (buffer_data l') = length (buffer_data l)"

definition int_sized :: "locals \<Rightarrow> bool" where
  "int_sized l \<longleftrightarrow> int (length (buffer_label l)) \<le> INT_MAX \<and> int (length (buffer_data l)) \<le> INT_MAX"

section \<open>Characteristic equations of the body\<close>

lemma checked_simps [simp]:
  "checked (Inl e) k = Failed e"
  "checked (Inr x) k = k x"
  by (simp_all add: checked_def)

lemma checked_Running_iff:
  "checked r k = Running l s \<longleftrightarrow> (\<exists>x. r = Inr x \<and> k x = Running l s)"
  by (cases r) simp_all

lemma checked_Returned_iff:
  "checked r k = Returned t l s \<longleftrightarrow> (\<exists>x. r = Inr x \<and> k x = Returned t l s)"
  by (cases r) simp_all

lemma checked_Failed_iff:
  "checked r k = Failed e \<longleftrightarrow> r = Inl e \<or> (\<exists>x. r = Inr x \<and> k x = Failed e)"
  by (cases r) simp_all

lemmas checked_iffs = checked_Running_iff checked_Returned_iff checked_Failed_iff

lemma carry_on_simps [simp]:
  "carry_on (Running l s) k = k l s"
  "carry_on (Returned t l s) k = Returned t l s"
  "carry_on (Failed e) k = Failed e"
  by (simp_all add: carry_on_def)

lemma body_label_mark:
  assumes "flag_ser_label l" and "rx s = b # bs" and "label_mark b"
  shows "loop_body l s =
    checked (store (buffer_label l) (length_label l) 0) (\<lambda>bl.
      Running (l\<lparr>flag_ser_label := False, flag_ser_data := True, buffer_label := bl,
                 length_data := 0, data_type := Some b\<rparr>) (s\<lparr>rx := bs\<rparr>))"
  using assms by (auto simp: loop_body_def Serial_read_def label_mark_def)

lemma body_label_byte:
  assumes "flag_ser_label l" and "rx s = b # bs" and "\<not> label_mark b"
  shows "loop_body l s =
    checked (store (buffer_label l) (length_label l) b) (\<lambda>bl.
    checked (incr (length_label l)) (\<lambda>n.
      Running (l\<lparr>buffer_label := bl, length_label := n\<rparr>) (s\<lparr>rx := bs\<rparr>)))"
  using assms by (simp add: loop_body_def Serial_read_def label_mark_def)

lemma body_data_end:
  assumes "\<not> flag_ser_label l" and "flag_ser_data l" and "rx s = PACKET_END # bs"
  shows "loop_body l s =
    checked (store (buffer_data l) (length_data l) 0) (\<lambda>bd.
    checked (case data_type l of None \<Rightarrow> Inl IndeterminateValue | Some t \<Rightarrow> Inr t) (\<lambda>t.
      Returned t (l\<lparr>flag_ser_data := False, flag_ser_end := True, buffer_data := bd\<rparr>)
        (s\<lparr>rx := bs\<rparr>)))"
  using assms by (simp add: loop_body_def Serial_read_def)

lemma body_data_byte:
  assumes "\<not> flag_ser_label l" and "flag_ser_data l" and "rx s = b # bs" and "b \<noteq> PACKET_END"
  shows "loop_body l s =
    checked (store (buffer_data l) (length_data l) b) (\<lambda>bd.
    checked (incr (length_data l)) (\<lambda>n.
      Running (l\<lparr>buffer_data := bd, length_data := n\<rparr>) (s\<lparr>rx := bs\<rparr>)))"
  using assms by (simp add: loop_body_def Serial_read_def)

lemma body_idle_start:
  assumes "\<not> flag_ser_label l" and "\<not> flag_ser_data l" and "rx s = PACKET_START # bs"
  shows "loop_body l s = Running (l\<lparr>flag_ser_label := True, length_label := 0\<rparr>) (s\<lparr>rx := bs\<rparr>)"
  using assms by (simp add: loop_body_def Serial_read_def)

lemma body_idle_noise:
  assumes "\<not> flag_ser_label l" and "\<not> flag_ser_data l" and "rx s = b # bs"
    and "b \<noteq> PACKET_START"
  shows "loop_body l s =
    Running l (Serial_write b (SerialSendErrorText (bytes_of ''SerInputErr'') (s\<lparr>rx := bs\<rparr>)))"
  using assms by (simp add: loop_body_def Serial_read_def)

lemmas body_eqs =
  body_label_mark body_label_byte body_data_end body_data_byte body_idle_start body_idle_noise

text \<open>The case analysis every proof about the body starts with.\<close>

lemma body_cases [consumes 1, case_names label_mark label_byte data_end data_byte idle_start idle_noise]:
  assumes "rx s = b # bs"
    and "flag_ser_label l \<Longrightarrow> label_mark b \<Longrightarrow> P"
    and "flag_ser_label l \<Longrightarrow> \<not> label_mark b \<Longrightarrow> P"
    and "\<not> flag_ser_label l \<Longrightarrow> flag_ser_data l \<Longrightarrow> b = PACKET_END \<Longrightarrow> P"
    and "\<not> flag_ser_label l \<Longrightarrow> flag_ser_data l \<Longrightarrow> b \<noteq> PACKET_END \<Longrightarrow> P"
    and "\<not> flag_ser_label l \<Longrightarrow> \<not> flag_ser_data l \<Longrightarrow> b = PACKET_START \<Longrightarrow> P"
    and "\<not> flag_ser_label l \<Longrightarrow> \<not> flag_ser_data l \<Longrightarrow> b \<noteq> PACKET_START \<Longrightarrow> P"
  shows P
  using assms by blast

section \<open>Characteristic equations of the loop\<close>

lemma loop_end: "flag_ser_end l \<Longrightarrow> parse_loop l s = Failed NoReturnValue"
  by (simp add: parse_loop.simps)

lemma loop_read:
  "\<not> flag_ser_end l \<Longrightarrow> rx s \<noteq> [] \<Longrightarrow> parse_loop l s = carry_on (loop_body l s) parse_loop"
  by (subst parse_loop.simps) (simp add: available_pos_iff)

lemma loop_wait:
  "\<not> flag_ser_end l \<Longrightarrow> rx s = [] \<Longrightarrow> incoming s \<noteq> [] \<Longrightarrow> parse_loop l s = parse_loop l (tick s)"
  by (subst parse_loop.simps) (simp add: available_pos_iff)

lemma loop_starved:
  "\<not> flag_ser_end l \<Longrightarrow> rx s = [] \<Longrightarrow> incoming s = [] \<Longrightarrow> parse_loop l s = Running l s"
  by (subst parse_loop.simps) (simp add: available_pos_iff)

lemmas loop_eqs = loop_end loop_read loop_wait loop_starved

section \<open>Proof rules for the loop\<close>

text \<open>
  Induction over the passes and polls of the loop: a property holds of every
  start of the loop when it holds where the loop is left at once, and is
  carried back over a poll and over a pass that goes on.
\<close>

lemma loop_induct [case_names ended starved wait read]:
  assumes "\<And>l s. flag_ser_end l \<Longrightarrow> P l s"
    and "\<And>l s. \<not> flag_ser_end l \<Longrightarrow> rx s = [] \<Longrightarrow> incoming s = [] \<Longrightarrow> P l s"
    and "\<And>l s. \<not> flag_ser_end l \<Longrightarrow> rx s = [] \<Longrightarrow> incoming s \<noteq> [] \<Longrightarrow> P l (tick s) \<Longrightarrow> P l s"
    and "\<And>l s. \<not> flag_ser_end l \<Longrightarrow> rx s \<noteq> [] \<Longrightarrow>
        (\<And>l' s'. loop_body l s = Running l' s' \<Longrightarrow> P l' s') \<Longrightarrow> P l s"
  shows "P l s"
proof (induction l s rule: parse_loop.induct)
  case (1 l s)
  consider "flag_ser_end l" | "\<not> flag_ser_end l" "rx s \<noteq> []"
    | "\<not> flag_ser_end l" "rx s = []" "incoming s = []"
    | "\<not> flag_ser_end l" "rx s = []" "incoming s \<noteq> []"
    by blast
  then show ?case
  proof cases
    case 2
    then have "loop_body l s = Running l' s' \<Longrightarrow> P l' s'" for l' s'
      by (intro "1.IH"(1)) (simp_all add: available_pos_iff)
    with 2 show ?thesis
      by (rule assms(4))
  next
    case 4
    then have "P l (tick s)"
      by (intro "1.IH"(2)) (simp_all add: available_pos_iff)
    with 4 show ?thesis
      by (rule assms(3))
  qed (simp_all add: assms(1,2))
qed

text \<open>
  The same induction for a relation between the start of the loop and its
  result: the cases are the ways in which the loop goes on or is left.
\<close>

lemma parse_loop_result_induct [case_names ended starved wait pass returned failed]:
  assumes ended: "\<And>l s. flag_ser_end l \<Longrightarrow> P l s (Failed NoReturnValue)"
    and starved: "\<And>l s. \<not> flag_ser_end l \<Longrightarrow> rx s = [] \<Longrightarrow> incoming s = [] \<Longrightarrow> P l s (Running l s)"
    and wait: "\<And>l s r. \<not> flag_ser_end l \<Longrightarrow> rx s = [] \<Longrightarrow> incoming s \<noteq> [] \<Longrightarrow>
        P l (tick s) r \<Longrightarrow> P l s r"
    and pass: "\<And>l s l' s' r. \<not> flag_ser_end l \<Longrightarrow> rx s \<noteq> [] \<Longrightarrow>
        loop_body l s = Running l' s' \<Longrightarrow> P l' s' r \<Longrightarrow> P l s r"
    and returned: "\<And>l s t l' s'. \<not> flag_ser_end l \<Longrightarrow> rx s \<noteq> [] \<Longrightarrow>
        loop_body l s = Returned t l' s' \<Longrightarrow> P l s (Returned t l' s')"
    and failed: "\<And>l s e. \<not> flag_ser_end l \<Longrightarrow> rx s \<noteq> [] \<Longrightarrow>
        loop_body l s = Failed e \<Longrightarrow> P l s (Failed e)"
  shows "P l s (parse_loop l s)"
proof (induction l s rule: loop_induct)
  case (ended l s)
  then show ?case
    by (simp add: loop_end assms(1))
next
  case (starved l s)
  then show ?case
    by (simp add: loop_starved assms(2))
next
  case (wait l s)
  then have "P l s (parse_loop l (tick s))"
    by (rule assms(3))
  with wait show ?case
    by (simp add: loop_wait)
next
  case (read l s)
  then have eq: "parse_loop l s = carry_on (loop_body l s) parse_loop"
    by (simp add: loop_read)
  show ?case
  proof (cases "loop_body l s")
    case (Running l' s')
    with read pass [of l s l' s' "parse_loop l' s'"] eq show ?thesis
      by simp
  next
    case (Returned t l' s')
    with read returned [of l s t l' s'] eq show ?thesis
      by simp
  next
    case (Failed e)
    with read failed [of l s e] eq show ?thesis
      by simp
  qed
qed

text \<open>
  An invariant \<open>I\<close> of the locals and the port that every pass and every wait
  keeps, and a property \<open>Q\<close> that holds of each way to leave the loop, give
  \<open>Q\<close> of the result of the loop.
\<close>

lemma parse_loop_rule [consumes 1, case_names live keep wait returned failed starved]:
  assumes inv: "I l s"
    and live: "\<And>l s. I l s \<Longrightarrow> \<not> flag_ser_end l"
    and keep: "\<And>l s l' s'. I l s \<Longrightarrow> rx s \<noteq> [] \<Longrightarrow> loop_body l s = Running l' s' \<Longrightarrow> I l' s'"
    and wait: "\<And>l s. I l s \<Longrightarrow> rx s = [] \<Longrightarrow> incoming s \<noteq> [] \<Longrightarrow> I l (tick s)"
    and returned: "\<And>l s t l' s'. I l s \<Longrightarrow> rx s \<noteq> [] \<Longrightarrow>
        loop_body l s = Returned t l' s' \<Longrightarrow> Q (Returned t l' s')"
    and failed: "\<And>l s e. I l s \<Longrightarrow> rx s \<noteq> [] \<Longrightarrow> loop_body l s = Failed e \<Longrightarrow> Q (Failed e)"
    and starved: "\<And>l s. I l s \<Longrightarrow> rx s = [] \<Longrightarrow> incoming s = [] \<Longrightarrow> Q (Running l s)"
  shows "Q (parse_loop l s)"
proof -
  have "I l s \<longrightarrow> Q (parse_loop l s)"
  proof (rule parse_loop_result_induct [where P = "\<lambda>l s r. I l s \<longrightarrow> Q r"], goal_cases)
    case (1 l s)
    then show ?case by (blast dest: live)
  next
    case (2 l s)
    then show ?case by (blast intro: starved)
  next
    case (3 l s r)
    then show ?case by (blast intro: wait)
  next
    case (4 l s l' s' r)
    then show ?case by (blast intro: keep)
  next
    case (5 l s t l' s')
    then show ?case by (blast intro: returned)
  next
    case (6 l s e)
    then show ?case by (blast intro: failed)
  qed
  with inv show ?thesis
    by simp
qed


lemma wf_fresh [simp]: "wf_locals (fresh_locals bl bd)"
  by (simp add: wf_locals_def fresh_locals_def)

lemma same_buffers_refl [simp]: "same_buffers l l"
  by (simp add: same_buffers_def)

lemma same_buffers_trans: "same_buffers l l' \<Longrightarrow> same_buffers l' l'' \<Longrightarrow> same_buffers l l''"
  by (simp add: same_buffers_def)

lemma body_Running_wf:
  assumes "wf_locals l" and "rx s \<noteq> []" and "loop_body l s = Running l' s'"
  shows "wf_locals l' \<and> same_buffers l l'"
proof -
  from assms(2) obtain b bs where rx: "rx s = b # bs" by (cases "rx s") auto
  from rx show ?thesis
  proof (cases rule: body_cases [where l = l])
    case label_mark
    with assms rx show ?thesis
      by (auto simp: body_label_mark checked_iffs store_Inr_iff wf_locals_def same_buffers_def)
  next
    case label_byte
    with assms rx show ?thesis
      by (auto simp: body_label_byte checked_iffs store_Inr_iff incr_Inr_iff wf_locals_def same_buffers_def)
  next
    case data_end
    with assms rx show ?thesis
      by (auto simp: body_data_end checked_iffs)
  next
    case data_byte
    with assms rx show ?thesis
      by (auto simp: body_data_byte checked_iffs store_Inr_iff incr_Inr_iff wf_locals_def same_buffers_def)
  next
    case idle_start
    with assms rx show ?thesis
      by (auto simp: body_idle_start wf_locals_def same_buffers_def)
  next
    case idle_noise
    with assms rx show ?thesis
      by (auto simp: body_idle_noise)
  qed
qed


lemma body_Returned:
  assumes "wf_locals l" and "rx s = b # bs" and "loop_body l s = Returned t l' s'"
  shows "flag_ser_data l \<and> b = PACKET_END \<and> data_type l = Some t \<and> label_mark t
    \<and> s' = s\<lparr>rx := bs\<rparr>
    \<and> l' = l\<lparr>flag_ser_data := False, flag_ser_end := True,
              buffer_data := (buffer_data l)[nat (length_data l) := 0]\<rparr>
    \<and> length_data l < int (length (buffer_data l))"
  using assms(2)
proof (cases rule: body_cases [where l = l])
  case data_end
  with assms show ?thesis
    by (auto simp: body_data_end checked_iffs store_Inr_iff wf_locals_def split: option.splits)
qed (use assms in \<open>auto simp: body_eqs checked_iffs\<close>)

lemma body_Failed:
  assumes "wf_locals l" and "rx s = b # bs" and "loop_body l s = Failed e"
  shows "(flag_ser_label l \<and> int (length (buffer_label l)) \<le> length_label l \<and> e = BufferOverrun)
       \<or> (flag_ser_data l \<and> int (length (buffer_data l)) \<le> length_data l \<and> e = BufferOverrun)
       \<or> (flag_ser_label l \<and> \<not> label_mark b \<and> length_label l < int (length (buffer_label l))
            \<and> INT_MAX \<le> length_label l \<and> e = IntOverflow)
       \<or> (flag_ser_data l \<and> b \<noteq> PACKET_END \<and> length_data l < int (length (buffer_data l))
            \<and> INT_MAX \<le> length_data l \<and> e = IntOverflow)"
  using assms(2)
proof (cases rule: body_cases [where l = l])
  case data_end
  with assms show ?thesis
    by (auto simp: body_data_end checked_iffs store_Inl_iff wf_locals_def split: option.splits)
qed (use assms in \<open>auto simp: body_eqs checked_iffs store_Inl_iff store_Inr_iff incr_Inl_iff wf_locals_def\<close>)

lemma int_sized_same: "same_buffers l l' \<Longrightarrow> int_sized l' = int_sized l"
  by (simp add: same_buffers_def int_sized_def)


section \<open>Properties of the loop\<close>

text \<open>
  The invariant at rest. Whenever the receiver is still inside its loop with nothing left to read,
  its locals satisfy the invariant: the end flag is clear, label and data
  collection are not both active, the type is assigned while data is collected,
  and both lengths lie within their buffers, whose sizes never change. The loop
  only waits when the receive queue is empty and nothing more will arrive.
\<close>

theorem parse_loop_invariant:
  assumes "wf_locals l" and "parse_loop l s = Running l' s'"
  shows "wf_locals l' \<and> same_buffers l l' \<and> rx s' = [] \<and> incoming s' = []"
proof -
  let ?I = "\<lambda>l1 (s1::serial). wf_locals l1 \<and> same_buffers l l1"
  let ?Q = "\<lambda>r. \<forall>l' s'. r = Running l' s' \<longrightarrow> wf_locals l' \<and> same_buffers l l' \<and> rx s' = [] \<and> incoming s' = []"
  from assms(1) have "?I l s" by simp
  then have "?Q (parse_loop l s)"
  proof (induction rule: parse_loop_rule [where I = ?I])
    case (keep l1 s1 l2 s2)
    then show ?case using body_Running_wf [of l1 s1 l2 s2] by (auto intro: same_buffers_trans)
  qed (auto simp: wf_locals_def)
  with assms(2) show ?thesis by simp
qed


theorem parse_loop_invariant_witness:
  "\<exists>l' s'. parse_loop (fresh_locals [0, 0, 0] [0, 0, 0]) (receiving [PACKET_START, 0x54])
       = Running l' s'
     \<and> wf_locals l' \<and> same_buffers (fresh_locals [0, 0, 0] [0, 0, 0]) l'
     \<and> length_label l' = 1 \<and> rx s' = [] \<and> incoming s' = []"
proof -
  have run: "parse_loop (fresh_locals [0, 0, 0] [0, 0, 0]) (receiving [PACKET_START, 0x54])
      = Running \<lparr>flag_ser_label = True, flag_ser_data = False, flag_ser_end = False,
          data_type = None, length_label = 1, length_data = 0,
          buffer_label = [0x54, 0, 0], buffer_data = [0, 0, 0]\<rparr> idle_port"
    by code_simp
  from parse_loop_invariant [OF wf_fresh run] run show ?thesis
    by simp
qed

text \<open>
  No undefined exit. The two undefined exits that the text of the source allows never happen:
  the receiver does not leave its loop through the loop condition (which would
  end a \<open>char\<close> function without a \<open>return\<close>), and it never returns
  \<open>data_type\<close> before a type marker has been stored in it.
\<close>

theorem receive_defined_return:
  "SerialReceiveAndParsePacket bl bd s \<noteq> Failed NoReturnValue
   \<and> SerialReceiveAndParsePacket bl bd s \<noteq> Failed IndeterminateValue"
proof -
  let ?Q = "\<lambda>r. r \<noteq> Failed NoReturnValue \<and> r \<noteq> Failed IndeterminateValue"
  have "wf_locals (fresh_locals bl bd)" by simp
  then have "?Q (parse_loop (fresh_locals bl bd) s)"
  proof (induction rule: parse_loop_rule [where I = "\<lambda>l s. wf_locals l"])
    case (keep l1 s1 l2 s2)
    then show ?case using body_Running_wf [of l1 s1 l2 s2] by simp
  next
    case (failed l1 s1 e)
    then obtain b bs where "rx s1 = b # bs" by (cases "rx s1") auto
    with failed show ?case using body_Failed [of l1 s1 b bs e] by auto
  qed (auto simp: wf_locals_def)
  then show ?thesis by (simp add: SerialReceiveAndParsePacket_def)
qed


text \<open>
  C25: With buffers of at most \<open>INT_MAX\<close> elements, as every array of the 16-bit
  target is, the \<open>int\<close> counters \<open>length_label\<close> and \<open>length_data\<close> never overflow:
  the receiver runs out of buffer first.
\<close>

theorem receive_no_int_overflow:
  assumes "int (length bl) \<le> INT_MAX" and "int (length bd) \<le> INT_MAX"
  shows "SerialReceiveAndParsePacket bl bd s \<noteq> Failed IntOverflow"
proof -
  let ?Q = "\<lambda>r. r \<noteq> Failed IntOverflow"
  from assms have "int_sized (fresh_locals bl bd)"
    by (simp add: int_sized_def fresh_locals_def)
  then have "wf_locals (fresh_locals bl bd) \<and> int_sized (fresh_locals bl bd)"
    by simp
  then have "?Q (parse_loop (fresh_locals bl bd) s)"
  proof (induction rule: parse_loop_rule [where I = "\<lambda>l s. wf_locals l \<and> int_sized l"])
    case (keep l1 s1 l2 s2)
    then show ?case using body_Running_wf [of l1 s1 l2 s2] by (auto simp: int_sized_same)
  next
    case (failed l1 s1 e)
    then obtain b bs where "rx s1 = b # bs" by (cases "rx s1") auto
    with failed show ?case using body_Failed [of l1 s1 b bs e] by (auto simp: int_sized_def)
  qed (auto simp: wf_locals_def)
  then show ?thesis by (simp add: SerialReceiveAndParsePacket_def)
qed


theorem receive_no_int_overflow_witness:
  "\<forall>s. SerialReceiveAndParsePacket (replicate 100 0) (replicate 100 0) s \<noteq> Failed IntOverflow"
  using receive_no_int_overflow [of "replicate 100 0" "replicate 100 0"]
  by (simp add: INT_MAX_def)

text \<open>
  C24: What the receiver returns is a type marker it has seen. A returned value
  is \<open>|\<close> or \<open>@\<close>, never the marker \<open>~\<close> of a packet of two integers; it is the
  value stored in \<open>data_type\<close>, and on return the end flag is set and both
  collecting flags are clear.
\<close>

theorem receive_returns_marker:
  assumes "SerialReceiveAndParsePacket bl bd s = Returned t l' s'"
  shows "(t = PACKET_INT \<or> t = PACKET_CHAR) \<and> data_type l' = Some t
    \<and> flag_ser_end l' \<and> \<not> flag_ser_label l' \<and> \<not> flag_ser_data l'"
proof -
  let ?Q = "\<lambda>r. \<forall>t l' s'. r = Returned t l' s' \<longrightarrow>
    label_mark t \<and> data_type l' = Some t \<and> flag_ser_end l' \<and> \<not> flag_ser_label l' \<and> \<not> flag_ser_data l'"
  have "wf_locals (fresh_locals bl bd)" by simp
  then have "?Q (parse_loop (fresh_locals bl bd) s)"
  proof (induction rule: parse_loop_rule [where I = "\<lambda>l s. wf_locals l"])
    case (keep l1 s1 l2 s2)
    then show ?case using body_Running_wf [of l1 s1 l2 s2] by simp
  next
    case (returned l1 s1 t1 l2 s2)
    then obtain b bs where rx: "rx s1 = b # bs"
      by (cases "rx s1") auto
    from body_Returned [OF returned(1) rx returned(3)]
    have "flag_ser_data l1" and "data_type l1 = Some t1" and "label_mark t1"
      and "l2 = l1\<lparr>flag_ser_data := False, flag_ser_end := True,
              buffer_data := (buffer_data l1)[nat (length_data l1) := 0]\<rparr>"
      by simp_all
    moreover from returned(1) this(1) have "\<not> flag_ser_label l1"
      by (auto simp: wf_locals_def)
    ultimately show ?case
      by simp
  qed (simp_all add: wf_locals_def)
  with assms show ?thesis
    by (simp add: SerialReceiveAndParsePacket_def label_mark_def)
qed

theorem receive_returns_marker_witness:
  "\<exists>l' s'. SerialReceiveAndParsePacket [0, 0] [0, 0] (receiving [0x3C, 0x40, 0x59, 0x3E])
       = Returned PACKET_CHAR l' s'
     \<and> data_type l' = Some PACKET_CHAR
     \<and> flag_ser_end l' \<and> \<not> flag_ser_label l' \<and> \<not> flag_ser_data l'"
proof -
  have ret: "SerialReceiveAndParsePacket [0, 0] [0, 0] (receiving [0x3C, 0x40, 0x59, 0x3E])
      = Returned PACKET_CHAR
          \<lparr>flag_ser_label = False, flag_ser_data = False, flag_ser_end = True,
             data_type = Some PACKET_CHAR, length_label = 0, length_data = 1,
             buffer_label = [0, 0], buffer_data = [0x59, 0]\<rparr> idle_port"
    by code_simp
  from receive_returns_marker [OF ret] ret show ?thesis
    by blast
qed

text \<open>
  C31: A byte outside a frame is reported and echoed after the report. When
  neither label nor payload is being collected and the byte read is not \<open><\<close>,
  one pass of the loop body changes no local, emits the frame
  \<open><Err@SerInputErr>\<close> and then the byte itself, outside of the frame; the
  frame has been flushed and the echoed byte is still in the transmit queue.
\<close>

theorem noise_notice:
  assumes "\<not> flag_ser_label l" and "\<not> flag_ser_data l" and "rx s = b # bs"
    and "b \<noteq> PACKET_START"
  shows "\<exists>s'. loop_body l s = Running l s'
    \<and> emitted s' = emitted s @ frame (bytes_of ''Err'') PACKET_CHAR (bytes_of ''SerInputErr'') @ [b]
    \<and> txq s' = [b] \<and> rx s' = bs \<and> incoming s' = incoming s"
proof -
  let ?s = "SerialSendErrorText (bytes_of ''SerInputErr'') (s\<lparr>rx := bs\<rparr>)"
  have "sends (SerialSendErrorText (bytes_of ''SerInputErr''))
      (frame (bytes_of ''Err'') PACKET_CHAR (cstr (bytes_of ''SerInputErr''))) (s\<lparr>rx := bs\<rparr>)"
    by (rule sends_ErrorText)
  from sendsD(2,3,4,6) [OF this]
  have "txq ?s = []" and "rx ?s = bs" and "incoming ?s = incoming s"
    and "emitted ?s = emitted s @ frame (bytes_of ''Err'') PACKET_CHAR (bytes_of ''SerInputErr'')"
    by (simp_all add: emitted_def)
  with assms show ?thesis
    by (simp add: body_idle_noise)
qed

theorem noise_notice_witness:
  "\<exists>s'. loop_body (fresh_locals [0, 0] [0, 0]) (receiving [0x58, 0x3C]) = Running (fresh_locals [0, 0] [0, 0]) s'
     \<and> emitted s' = emitted (receiving [0x58, 0x3C])
          @ frame (bytes_of ''Err'') PACKET_CHAR (bytes_of ''SerInputErr'') @ [0x58]
     \<and> txq s' = [0x58] \<and> rx s' = [0x3C] \<and> incoming s' = incoming (receiving [0x58, 0x3C])"
  using noise_notice [of "fresh_locals [0, 0] [0, 0]" "receiving [0x58, 0x3C]" "0x58" "[0x3C]"]
  by (simp add: fresh_locals_def receiving_def idle_port_def PACKET_START_def)

end
