(* ===== verification/Decoder_Spec.thy ===== *)
theory Decoder_Spec
  imports Packet_Decoder
begin

text \<open>
  What the receiver promises, as a state machine over the byte stream alone:
  the three states \<open>Idle\<close>, \<open>CollectingLabel\<close> and \<open>CollectingPayload\<close>, the
  transition \<open>feed\<close> for one byte with capacities for label and payload, and
  \<open>run\<close>, which feeds a stream until a packet is complete. The relation
  \<open>tracks\<close> couples the locals and buffers of the source with a state of this
  machine, and \<open>matches\<close> couples a result of the loop with a result of \<open>run\<close>.
  The lemmas show that each pass of the loop body is one \<open>feed\<close>, and the main
  result that the loop of the source is \<open>run\<close> on the pending input.
\<close>

section \<open>The abstract machine\<close>

datatype decoder =
    Idle
  | CollectingLabel "byte list"
  | CollectingPayload "byte list" byte "byte list"

datatype event = Silent | Notice byte | Packet "byte list" byte "byte list"

datatype verdict =
    Awaiting decoder "byte list"
  | Delivered "byte list" "byte list" byte "byte list" "byte list"
  | Overflowed fault

fun feed :: "nat \<Rightarrow> nat \<Rightarrow> decoder \<Rightarrow> byte \<Rightarrow> fault + decoder \<times> event" where
  "feed cl cd Idle b =
     (if b = PACKET_START then Inr (CollectingLabel [], Silent) else Inr (Idle, Notice b))"
| "feed cl cd (CollectingLabel lab) b =
     (if length lab < cl then
        (if label_mark b then Inr (CollectingPayload lab b [], Silent)
         else Inr (CollectingLabel (lab @ [b]), Silent))
      else Inl BufferOverrun)"
| "feed cl cd (CollectingPayload lab t pay) b =
     (if length pay < cd then
        (if b = PACKET_END then Inr (Idle, Packet lab t pay)
         else Inr (CollectingPayload lab t (pay @ [b]), Silent))
      else Inl BufferOverrun)"

fun noisy :: "byte \<Rightarrow> verdict \<Rightarrow> verdict" where
  "noisy x (Awaiting d ns) = Awaiting d (x # ns)"
| "noisy x (Delivered ns lab t pay rest) = Delivered (x # ns) lab t pay rest"
| "noisy x (Overflowed e) = Overflowed e"

fun follow :: "fault + decoder \<times> event \<Rightarrow> byte list \<Rightarrow> (decoder \<Rightarrow> verdict) \<Rightarrow> verdict" where
  "follow (Inl e) bs k = Overflowed e"
| "follow (Inr (d', Silent)) bs k = k d'"
| "follow (Inr (d', Notice x)) bs k = noisy x (k d')"
| "follow (Inr (d', Packet lab t pay)) bs k = Delivered [] lab t pay bs"

lemma follow_cong [fundef_cong]:
  "r = r' \<Longrightarrow> bs = bs' \<Longrightarrow> (\<And>d. k d = k' d) \<Longrightarrow> follow r bs k = follow r' bs' k'"
  by (cases "(r', bs', k')" rule: follow.cases) auto

fun run :: "nat \<Rightarrow> nat \<Rightarrow> decoder \<Rightarrow> byte list \<Rightarrow> verdict" where
  "run cl cd d [] = Awaiting d []"
| "run cl cd d (b # bs) = follow (feed cl cd d b) bs (\<lambda>d'. run cl cd d' bs)"

definition notice :: "byte \<Rightarrow> byte list" where
  "notice x = frame (bytes_of ''Err'') PACKET_CHAR (bytes_of ''SerInputErr'') @ [x]"

definition notices :: "byte list \<Rightarrow> byte list" where
  "notices ns = concat (map notice ns)"

section \<open>Coupling the source with the machine\<close>

definition holds :: "byte list \<Rightarrow> byte list \<Rightarrow> bool" where
  "holds a xs \<longleftrightarrow> take (Suc (length xs)) a = xs @ [0]"

fun tracks :: "locals \<Rightarrow> decoder \<Rightarrow> bool" where
  "tracks l Idle \<longleftrightarrow> \<not> flag_ser_end l \<and> \<not> flag_ser_label l \<and> \<not> flag_ser_data l"
| "tracks l (CollectingLabel lab) \<longleftrightarrow>
     \<not> flag_ser_end l \<and> flag_ser_label l \<and> \<not> flag_ser_data l
     \<and> length_label l = int (length lab) \<and> take (length lab) (buffer_label l) = lab
     \<and> length lab \<le> length (buffer_label l)"
| "tracks l (CollectingPayload lab t pay) \<longleftrightarrow>
     \<not> flag_ser_end l \<and> \<not> flag_ser_label l \<and> flag_ser_data l
     \<and> data_type l = Some t \<and> label_mark t
     \<and> length_label l = int (length lab) \<and> holds (buffer_label l) lab
     \<and> length_data l = int (length pay) \<and> take (length pay) (buffer_data l) = pay
     \<and> length pay \<le> length (buffer_data l)"

fun matches :: "locals \<Rightarrow> serial \<Rightarrow> outcome \<Rightarrow> verdict \<Rightarrow> bool" where
  "matches l s (Running l' s') (Awaiting d ns) \<longleftrightarrow>
     tracks l' d \<and> same_buffers l l' \<and> pending s' = []
     \<and> emitted s' = emitted s @ notices ns \<and> elapsed s' = elapsed s"
| "matches l s (Returned t l' s') (Delivered ns lab t' pay rest) \<longleftrightarrow>
     t = t' \<and> holds (buffer_label l') lab \<and> holds (buffer_data l') pay \<and> same_buffers l l'
     \<and> pending s' = rest \<and> emitted s' = emitted s @ notices ns \<and> elapsed s' = elapsed s"
| "matches l s (Failed e) (Overflowed e') \<longleftrightarrow> e = e'"
| "matches l s _ _ \<longleftrightarrow> False"

definition notified :: "byte \<Rightarrow> serial \<Rightarrow> serial" where
  "notified x s = Serial_write x (SerialSendErrorText (bytes_of ''SerInputErr'') s)"

abbreviation spec_run :: "locals \<Rightarrow> decoder \<Rightarrow> byte list \<Rightarrow> verdict" where
  "spec_run l \<equiv> run (length (buffer_label l)) (length (buffer_data l))"

section \<open>Strings held by a buffer\<close>

lemma holds_length: "holds a xs \<Longrightarrow> length xs < length a"
  by (auto simp: holds_def dest: arg_cong [where f = length])

lemma holds_take: "holds a xs \<Longrightarrow> take (length xs) a = xs"
proof -
  assume "holds a xs"
  then have "take (length xs) (take (Suc (length xs)) a) = take (length xs) (xs @ [0])"
    by (simp add: holds_def)
  then show ?thesis
    by (simp add: min_def)
qed

lemma holds_prefix: "holds a xs \<Longrightarrow> n = length xs \<Longrightarrow> take n a = xs"
  by (simp add: holds_take)

lemma holds_terminated: "holds a xs \<Longrightarrow> 0 \<in> set a"
proof -
  assume "holds a xs"
  then have "0 \<in> set (take (Suc (length xs)) a)"
    by (simp add: holds_def)
  then show ?thesis
    by (rule in_set_takeD)
qed

lemma holds_terminate:
  "take n a = xs \<Longrightarrow> n = length xs \<Longrightarrow> n < length a \<Longrightarrow> holds (a[n := 0]) xs"
  by (simp add: holds_def take_Suc_update)

lemma holds_cstr: "holds a xs \<Longrightarrow> 0 \<notin> set xs \<Longrightarrow> cstr a = xs"
proof -
  assume h: "holds a xs" and nz: "0 \<notin> set xs"
  have "a = take (Suc (length xs)) a @ drop (Suc (length xs)) a"
    by simp
  with h have "a = xs @ 0 # drop (Suc (length xs)) a"
    by (simp add: holds_def)
  with nz show ?thesis
    by (metis cstr_terminated)
qed

lemma holds_unique: "holds a xs \<Longrightarrow> holds a ys \<Longrightarrow> 0 \<notin> set xs \<Longrightarrow> 0 \<notin> set ys \<Longrightarrow> xs = ys"
  by (metis holds_cstr)

section \<open>Facts about the coupling\<close>

lemma tracks_alive: "tracks l d \<Longrightarrow> \<not> flag_ser_end l"
  by (cases d) simp_all

lemma tracks_fresh [simp]: "tracks (fresh_locals bl bd) Idle"
  by (simp add: fresh_locals_def)

lemma notified_fields [simp]:
  "emitted (notified x s) = emitted s @ notice x"
  "pending (notified x s) = pending s"
  "rx (notified x s) = rx s"
  "incoming (notified x s) = incoming s"
  "elapsed (notified x s) = elapsed s"
  "txq (notified x s) = [x]"
  using sendsD [OF sends_ErrorText, of "bytes_of ''SerInputErr''" s]
  by (simp_all add: notified_def notice_def emitted_def pending_def)

lemma pending_Cons: "rx s = b # bs \<Longrightarrow> pending s = b # pending (s\<lparr>rx := bs\<rparr>)"
  by (simp add: pending_def)

lemma read_fields [simp]:
  "emitted (s\<lparr>rx := bs\<rparr>) = emitted s"
  "elapsed (s\<lparr>rx := bs\<rparr>) = elapsed s"
  by (simp_all add: emitted_def)

lemma matches_silent:
  assumes "matches l1 s1 out v" and "same_buffers l l1" and "emitted s1 = emitted s"
    and "elapsed s1 = elapsed s"
  shows "matches l s out v"
  using assms by (cases out; cases v) (auto simp: same_buffers_def)

lemma matches_noisy:
  assumes "matches l1 s1 out v" and "same_buffers l l1" and "emitted s1 = emitted s @ notice x"
    and "elapsed s1 = elapsed s"
  shows "matches l s out (noisy x v)"
  using assms by (cases out; cases v) (auto simp: same_buffers_def notices_def)

section \<open>Runs of the abstract machine\<close>

lemma foldr_noisy_Awaiting [simp]: "foldr noisy ns (Awaiting d ms) = Awaiting d (ns @ ms)"
  by (induction ns) auto

lemma foldr_noisy_Delivered [simp]:
  "foldr noisy ns (Delivered ms lab t pay rest) = Delivered (ns @ ms) lab t pay rest"
  by (induction ns) auto

lemma foldr_noisy_Overflowed [simp]: "foldr noisy ns (Overflowed e) = Overflowed e"
  by (induction ns) auto

lemma run_noise:
  "PACKET_START \<notin> set ns \<Longrightarrow> run cl cd Idle (ns @ bs) = foldr noisy ns (run cl cd Idle bs)"
  by (induction ns) auto

lemma run_label:
  "unmarked xs \<Longrightarrow> length lab + length xs \<le> cl \<Longrightarrow>
   run cl cd (CollectingLabel lab) (xs @ bs) = run cl cd (CollectingLabel (lab @ xs)) bs"
  by (induction xs arbitrary: lab) auto

lemma run_payload:
  "plain_payload xs \<Longrightarrow> length pay + length xs \<le> cd \<Longrightarrow>
   run cl cd (CollectingPayload lab t pay) (xs @ bs) = run cl cd (CollectingPayload lab t (pay @ xs)) bs"
  by (induction xs arbitrary: pay) auto

lemma run_frame:
  assumes "unmarked lab" and "label_mark t" and "plain_payload pay"
    and "length lab < cl" and "length pay < cd"
  shows "run cl cd Idle (frame lab t pay @ rest) = Delivered [] lab t pay rest"
proof -
  have "run cl cd Idle (frame lab t pay @ rest)
      = run cl cd (CollectingLabel []) (lab @ t # pay @ PACKET_END # rest)"
    by (simp add: frame_def)
  also have "\<dots> = run cl cd (CollectingLabel lab) (t # pay @ PACKET_END # rest)"
    using assms run_label [of lab "[]" cl cd] by simp
  also have "\<dots> = run cl cd (CollectingPayload lab t []) (pay @ PACKET_END # rest)"
    using assms by simp
  also have "\<dots> = run cl cd (CollectingPayload lab t pay) (PACKET_END # rest)"
    using assms run_payload [of pay "[]" cd cl lab t] by simp
  finally show ?thesis
    using assms by simp
qed

lemma run_append:
  "run cl cd d (xs @ ys) =
    (case run cl cd d xs of
       Awaiting d' ns \<Rightarrow> foldr noisy ns (run cl cd d' ys)
     | Delivered ns lab t pay rest \<Rightarrow> Delivered ns lab t pay (rest @ ys)
     | Overflowed e \<Rightarrow> Overflowed e)"
proof (induction xs arbitrary: d)
  case Nil
  then show ?case by simp
next
  case (Cons b xs)
  show ?case
  proof (cases "feed cl cd d b")
    case (Inl e)
    then show ?thesis by simp
  next
    case (Inr r)
    obtain d' ev where "r = (d', ev)" by (cases r)
    with Inr Cons.IH [of d'] show ?thesis
      by (cases ev; cases "run cl cd d' xs") simp_all
  qed
qed

lemma run_label_overrun:
  "unmarked xs \<Longrightarrow> cl < length lab + length xs \<Longrightarrow> length lab \<le> cl \<Longrightarrow>
   run cl cd (CollectingLabel lab) (xs @ bs) = Overflowed BufferOverrun"
proof (induction xs arbitrary: lab)
  case Nil
  then show ?case by simp
next
  case (Cons b xs)
  then show ?case by (cases "length lab < cl") auto
qed

lemma run_payload_overrun:
  "plain_payload xs \<Longrightarrow> cd < length pay + length xs \<Longrightarrow> length pay \<le> cd \<Longrightarrow>
   run cl cd (CollectingPayload lab t pay) (xs @ bs) = Overflowed BufferOverrun"
proof (induction xs arbitrary: pay)
  case Nil
  then show ?case by simp
next
  case (Cons b xs)
  then show ?case by (cases "length pay < cd") auto
qed

section \<open>One pass of the body is one transition\<close>

lemma sim_idle:
  assumes "tracks l Idle" and "rx s = b # bs"
  shows "loop_body l s =
    (if b = PACKET_START
     then Running (l\<lparr>flag_ser_label := True, length_label := 0\<rparr>) (s\<lparr>rx := bs\<rparr>)
     else Running l (notified b (s\<lparr>rx := bs\<rparr>)))"
  using assms by (simp add: body_idle_start body_idle_noise notified_def)

lemma sim_label:
  assumes "tracks l (CollectingLabel lab)" and "int_sized l" and "rx s = b # bs"
  shows "loop_body l s =
    (if length lab < length (buffer_label l) then
       (if label_mark b then
          Running (l\<lparr>flag_ser_label := False, flag_ser_data := True,
                     buffer_label := (buffer_label l)[length lab := 0],
                     length_data := 0, data_type := Some b\<rparr>) (s\<lparr>rx := bs\<rparr>)
        else Running (l\<lparr>buffer_label := (buffer_label l)[length lab := b],
                        length_label := int (length lab) + 1\<rparr>) (s\<lparr>rx := bs\<rparr>))
     else Failed BufferOverrun)"
  using assms by (auto simp: body_label_mark body_label_byte int_sized_def)

lemma sim_payload:
  assumes "tracks l (CollectingPayload lab t pay)" and "int_sized l" and "rx s = b # bs"
  shows "loop_body l s =
    (if length pay < length (buffer_data l) then
       (if b = PACKET_END then
          Returned t (l\<lparr>flag_ser_data := False, flag_ser_end := True,
                        buffer_data := (buffer_data l)[length pay := 0]\<rparr>) (s\<lparr>rx := bs\<rparr>)
        else Running (l\<lparr>buffer_data := (buffer_data l)[length pay := b],
                        length_data := int (length pay) + 1\<rparr>) (s\<lparr>rx := bs\<rparr>))
     else Failed BufferOverrun)"
  using assms by (auto simp: body_data_end body_data_byte int_sized_def)

lemma step_sim:
  assumes "tracks l d" and "int_sized l" and "rx s = b # bs"
  shows "case feed (length (buffer_label l)) (length (buffer_data l)) d b of
      Inl e \<Rightarrow> loop_body l s = Failed e
    | Inr (d', Silent) \<Rightarrow>
        (\<exists>l'. loop_body l s = Running l' (s\<lparr>rx := bs\<rparr>) \<and> tracks l' d' \<and> same_buffers l l')
    | Inr (d', Notice x) \<Rightarrow> loop_body l s = Running l (notified x (s\<lparr>rx := bs\<rparr>)) \<and> d' = d
    | Inr (d', Packet lab t pay) \<Rightarrow>
        (\<exists>l'. loop_body l s = Returned t l' (s\<lparr>rx := bs\<rparr>) \<and> holds (buffer_label l') lab
           \<and> holds (buffer_data l') pay \<and> same_buffers l l')"
proof (cases d)
  case Idle
  note body = sim_idle [OF assms(1) [unfolded Idle] assms(3)]
  from assms(1) Idle show ?thesis
    by (simp add: body same_buffers_def)
next
  case (CollectingLabel lab)
  note body = sim_label [OF assms(1) [unfolded CollectingLabel] assms(2,3)]
  from assms(1) CollectingLabel show ?thesis
    by (simp add: body same_buffers_def take_Suc_update holds_terminate)
next
  case (CollectingPayload lab t pay)
  note body = sim_payload [OF assms(1) [unfolded CollectingPayload] assms(2,3)]
  from assms(1) CollectingPayload show ?thesis
    by (simp add: body same_buffers_def take_Suc_update holds_terminate)
qed

section \<open>One read of the loop is one step of the run\<close>

lemma read_failed:
  assumes "tracks l d" and "int_sized l" and "rx s = b # bs"
    and "feed (length (buffer_label l)) (length (buffer_data l)) d b = Inl e"
  shows "parse_loop l s = Failed e"
  using step_sim [OF assms(1-3)] assms(3,4) tracks_alive [OF assms(1)]
  by (simp add: loop_read)

lemma read_packet:
  assumes "tracks l d" and "int_sized l" and "rx s = b # bs"
    and "feed (length (buffer_label l)) (length (buffer_data l)) d b = Inr (d', Packet lab t pay)"
  shows "\<exists>l'. parse_loop l s = Returned t l' (s\<lparr>rx := bs\<rparr>) \<and> holds (buffer_label l') lab
     \<and> holds (buffer_data l') pay \<and> same_buffers l l'"
  using step_sim [OF assms(1-3)] assms(3,4) tracks_alive [OF assms(1)]
  by (auto simp: loop_read)

lemma read_silent:
  assumes "tracks l d" and "int_sized l" and "rx s = b # bs"
    and "feed (length (buffer_label l)) (length (buffer_data l)) d b = Inr (d', Silent)"
  shows "\<exists>l'. loop_body l s = Running l' (s\<lparr>rx := bs\<rparr>)
     \<and> parse_loop l s = parse_loop l' (s\<lparr>rx := bs\<rparr>)
     \<and> tracks l' d' \<and> same_buffers l l' \<and> int_sized l'"
  using step_sim [OF assms(1-3)] assms(2,3,4) tracks_alive [OF assms(1)]
  by (auto simp: loop_read int_sized_same)

lemma read_notice:
  assumes "tracks l d" and "int_sized l" and "rx s = b # bs"
    and "feed (length (buffer_label l)) (length (buffer_data l)) d b = Inr (d', Notice x)"
  shows "loop_body l s = Running l (notified x (s\<lparr>rx := bs\<rparr>))
     \<and> parse_loop l s = parse_loop l (notified x (s\<lparr>rx := bs\<rparr>)) \<and> d' = d"
  using step_sim [OF assms(1-3)] assms(3,4) tracks_alive [OF assms(1)]
  by (auto simp: loop_read)

lemma spec_run_same: "same_buffers l l' \<Longrightarrow> spec_run l' = spec_run l"
  by (simp add: same_buffers_def)

lemma matches_read:
  assumes tr: "tracks l d" and sized: "int_sized l" and rx: "rx s = b # bs"
    and IH: "\<And>l' s' d'. loop_body l s = Running l' s' \<Longrightarrow> tracks l' d' \<Longrightarrow> int_sized l' \<Longrightarrow>
      matches l' s' (parse_loop l' s') (spec_run l' d' (pending s'))"
  shows "matches l s (parse_loop l s) (spec_run l d (pending s))"
proof (cases "feed (length (buffer_label l)) (length (buffer_data l)) d b")
  case (Inl e)
  with read_failed [OF tr sized rx] rx show ?thesis
    by (simp add: pending_Cons)
next
  case (Inr r)
  obtain d' ev where r: "r = (d', ev)"
    by (cases r)
  let ?s' = "s\<lparr>rx := bs\<rparr>"
  show ?thesis
  proof (cases ev)
    case Silent
    with Inr r read_silent [OF tr sized rx] obtain l' where body: "loop_body l s = Running l' ?s'"
      and loop: "parse_loop l s = parse_loop l' ?s'" and l': "tracks l' d'" "same_buffers l l'" "int_sized l'"
      by blast
    from IH [OF body l'(1,3)] l'(2) have "matches l' ?s' (parse_loop l' ?s') (spec_run l d' (pending ?s'))"
      by (simp add: spec_run_same)
    then have "matches l s (parse_loop l' ?s') (spec_run l d' (pending ?s'))"
      using l'(2) by (rule matches_silent) simp_all
    with Inr r Silent loop rx show ?thesis
      by (simp add: pending_Cons)
  next
    case (Notice x)
    with Inr r read_notice [OF tr sized rx] have body: "loop_body l s = Running l (notified x ?s')"
      and loop: "parse_loop l s = parse_loop l (notified x ?s')" and d': "d' = d"
      by blast+
    from IH [OF body tr sized]
    have "matches l (notified x ?s') (parse_loop l (notified x ?s')) (spec_run l d (pending ?s'))"
      by simp
    then have "matches l s (parse_loop l (notified x ?s')) (noisy x (spec_run l d (pending ?s')))"
      by (rule matches_noisy) simp_all
    with Inr r Notice loop d' rx show ?thesis
      by (simp add: pending_Cons)
  next
    case (Packet lab t pay)
    with Inr r read_packet [OF tr sized rx] rx show ?thesis
      by (auto simp: pending_Cons notices_def)
  qed
qed

lemma matches_wait:
  assumes "tracks l d" and "rx s = []" and "incoming s \<noteq> []"
    and IH: "matches l (tick s) (parse_loop l (tick s)) (spec_run l d (pending (tick s)))"
  shows "matches l s (parse_loop l s) (spec_run l d (pending s))"
proof -
  from IH have "matches l (tick s) (parse_loop l (tick s)) (spec_run l d (pending s))"
    by simp
  then have "matches l s (parse_loop l (tick s)) (spec_run l d (pending s))"
    by (rule matches_silent) simp_all
  with assms(1-3) show ?thesis
    by (simp add: loop_wait tracks_alive)
qed

lemma parse_loop_matches:
  assumes "tracks l d" and "int_sized l"
  shows "matches l s (parse_loop l s) (spec_run l d (pending s))"
  using assms
proof (induction l s arbitrary: d rule: loop_induct)
  case (ended l s)
  with tracks_alive show ?case
    by blast
next
  case (starved l s)
  then show ?case
    by (simp add: loop_starved pending_def notices_def)
next
  case (wait l s)
  then have "matches l (tick s) (parse_loop l (tick s)) (spec_run l d (pending (tick s)))"
    by simp
  with wait.prems(1) wait.hyps(2,3) show ?case
    by (rule matches_wait)
next
  case (read l s)
  then obtain b bs where "rx s = b # bs"
    by (cases "rx s") auto
  with read.prems show ?case
    by (rule matches_read) (rule read.IH)
qed

section \<open>From results of the run to results of the receiver\<close>

lemma matches_Delivered:
  "matches l s out (Delivered ns lab t pay rest) \<Longrightarrow>
   \<exists>l' s'. out = Returned t l' s' \<and> holds (buffer_label l') lab \<and> holds (buffer_data l') pay
     \<and> same_buffers l l' \<and> pending s' = rest \<and> emitted s' = emitted s @ notices ns
     \<and> elapsed s' = elapsed s"
  by (cases out) auto

lemma matches_Awaiting:
  "matches l s out (Awaiting d ns) \<Longrightarrow>
   \<exists>l' s'. out = Running l' s' \<and> tracks l' d \<and> same_buffers l l' \<and> pending s' = []
     \<and> emitted s' = emitted s @ notices ns \<and> elapsed s' = elapsed s"
  by (cases out) auto

lemma matches_Overflowed: "matches l s out (Overflowed e) \<Longrightarrow> out = Failed e"
  by (cases out) auto

lemma int_sized_fresh:
  "int (length bl) \<le> INT_MAX \<Longrightarrow> int (length bd) \<le> INT_MAX \<Longrightarrow> int_sized (fresh_locals bl bd)"
  by (simp add: int_sized_def fresh_locals_def)

lemma fresh_buffers [simp]:
  "buffer_label (fresh_locals bl bd) = bl" "buffer_data (fresh_locals bl bd) = bd"
  by (simp_all add: fresh_locals_def)

lemma receive_matches:
  assumes "int (length bl) \<le> INT_MAX" and "int (length bd) \<le> INT_MAX"
  shows "matches (fresh_locals bl bd) s (SerialReceiveAndParsePacket bl bd s)
     (run (length bl) (length bd) Idle (pending s))"
  using parse_loop_matches [OF tracks_fresh int_sized_fresh [OF assms], of s]
  by (simp add: SerialReceiveAndParsePacket_def)

lemma run_noisy_frame:
  assumes "PACKET_START \<notin> set noise" and "unmarked lab" and "label_mark t" and "plain_payload pay"
    and "length lab < cl" and "length pay < cd"
  shows "run cl cd Idle (noise @ frame lab t pay @ rest) = Delivered noise lab t pay rest"
  using assms by (simp add: run_noise run_frame)

lemma run_start_label_overrun:
  assumes "PACKET_START \<notin> set noise" and "unmarked lab" and "label_mark t" and "cl \<le> length lab"
  shows "run cl cd Idle (noise @ PACKET_START # lab @ t # rest) = Overflowed BufferOverrun"
proof (cases "cl < length lab")
  case True
  with assms run_label_overrun [of lab cl "[]" cd "t # rest"] show ?thesis
    by (simp add: run_noise)
next
  case False
  with assms have "run cl cd (CollectingLabel []) (lab @ t # rest)
      = run cl cd (CollectingLabel lab) (t # rest)"
    using run_label [of lab "[]" cl cd "t # rest"] by simp
  with assms False show ?thesis
    by (simp add: run_noise)
qed

lemma run_frame_payload_overrun:
  assumes "PACKET_START \<notin> set noise" and "unmarked lab" and "label_mark t" and "plain_payload pay"
    and "length lab < cl" and "cd \<le> length pay"
  shows "run cl cd Idle (noise @ frame lab t pay @ rest) = Overflowed BufferOverrun"
proof -
  have "run cl cd Idle (frame lab t pay @ rest)
      = run cl cd (CollectingPayload lab t []) (pay @ PACKET_END # rest)"
    using assms run_label [of lab "[]" cl cd "t # pay @ PACKET_END # rest"]
    by (simp add: frame_def)
  also have "\<dots> = Overflowed BufferOverrun"
  proof (cases "cd < length pay")
    case True
    with assms run_payload_overrun [of pay cd "[]"] show ?thesis by simp
  next
    case False
    with assms run_payload [of pay "[]" cd cl lab t "PACKET_END # rest"] show ?thesis by simp
  qed
  finally show ?thesis
    using assms(1) by (simp add: run_noise)
qed

lemma run_incomplete:
  assumes "PACKET_START \<notin> set noise" and "unmarked lab" and "label_mark t" and "plain_payload pay"
    and "length lab < cl" and "length pay \<le> cd"
  shows "run cl cd Idle (noise @ PACKET_START # lab @ t # pay) = Awaiting (CollectingPayload lab t pay) noise"
  using assms run_label [of lab "[]" cl cd "t # pay"] run_payload [of pay "[]" cd cl lab t "[]"]
  by (simp add: run_noise)

lemma receive_frame:
  assumes "int (length bl) \<le> INT_MAX" and "int (length bd) \<le> INT_MAX"
    and "PACKET_START \<notin> set noise" and "unmarked lab" and "label_mark t" and "plain_payload pay"
    and "length lab < length bl" and "length pay < length bd"
    and "pending s = noise @ frame lab t pay @ rest"
  obtains l' s' where "SerialReceiveAndParsePacket bl bd s = Returned t l' s'"
    and "holds (buffer_label l') lab" and "holds (buffer_data l') pay"
    and "pending s' = rest" and "emitted s' = emitted s @ notices noise"
    and "elapsed s' = elapsed s"
    and "length (buffer_label l') = length bl" and "length (buffer_data l') = length bd"
  using receive_matches [OF assms(1,2), of s] run_noisy_frame [OF assms(3-8)] assms(9)
  by (auto dest: matches_Delivered simp: same_buffers_def fresh_locals_def)

lemmas ground_simps = INT_MAX_def wire_defs label_mark_def

lemma Err_frame_plain:
  "unmarked (bytes_of ''Err'')" "label_mark PACKET_CHAR"
  "plain_payload (bytes_of ''SerInputErr'')"
  by (simp_all add: ground_simps)

section \<open>Properties\<close>

text \<open>
  C2: The receiver implements the state machine: for buffers that fit the
  target's \<open>int\<close>, the result of \<open>SerialReceiveAndParsePacket\<close> on any port
  state matches the result of \<open>run\<close> from \<open>Idle\<close> on the pending input. It
  returns exactly when \<open>run\<close> delivers a packet, with the same type marker,
  the label and payload held terminated in the two buffers and the same input
  left over; it fails exactly when \<open>run\<close> overflows; it keeps polling exactly
  when \<open>run\<close> awaits more input; and the error notices it has emitted are
  those of the bytes \<open>run\<close> reports as noise.
\<close>

theorem receiver_refines_spec:
  assumes "int (length bl) \<le> INT_MAX" and "int (length bd) \<le> INT_MAX"
  shows "matches (fresh_locals bl bd) s (SerialReceiveAndParsePacket bl bd s)
     (run (length bl) (length bd) Idle (pending s))"
  using assms by (rule receive_matches)

theorem receiver_refines_spec_witness:
  "matches (fresh_locals (replicate 4 0) (replicate 6 0))
     (receiving (bytes_of ''XY<Ts|'' @ [0, 0, 0, 5] @ bytes_of ''>rest''))
     (SerialReceiveAndParsePacket (replicate 4 0) (replicate 6 0)
        (receiving (bytes_of ''XY<Ts|'' @ [0, 0, 0, 5] @ bytes_of ''>rest'')))
     (Delivered (bytes_of ''XY'') (bytes_of ''Ts'') PACKET_INT [0, 0, 0, 5] (bytes_of ''rest''))"
proof -
  let ?s = "receiving (bytes_of ''XY<Ts|'' @ [0, 0, 0, 5] @ bytes_of ''>rest'')"
  have "run 4 6 Idle (pending ?s)
      = Delivered (bytes_of ''XY'') (bytes_of ''Ts'') PACKET_INT [0, 0, 0, 5] (bytes_of ''rest'')"
    by code_simp
  moreover have "int (length (replicate 4 (0::byte))) \<le> INT_MAX"
    "int (length (replicate 6 (0::byte))) \<le> INT_MAX"
    by (simp_all add: INT_MAX_def)
  ultimately show ?thesis
    using receiver_refines_spec [of "replicate 4 0" "replicate 6 0" ?s]
    by (simp only: length_replicate)
qed

text \<open>
  C5: Given a stream that starts with any bytes other than the start marker and
  continues with one well-formed frame whose label and payload fit the buffers,
  the receiver returns the frame's type marker, leaves label and payload
  terminated in the caller's buffers, consumes the input up to and including
  the end marker, and has emitted one error notice for each leading noise byte,
  in their order.
\<close>

theorem receive_packet:
  assumes "int (length bl) \<le> INT_MAX" and "int (length bd) \<le> INT_MAX"
    and "PACKET_START \<notin> set noise" and "unmarked lab" and "label_mark t" and "plain_payload pay"
    and "length lab < length bl" and "length pay < length bd"
    and "pending s = noise @ frame lab t pay @ rest"
  shows "\<exists>l' s'. SerialReceiveAndParsePacket bl bd s = Returned t l' s'
    \<and> holds (buffer_label l') lab \<and> holds (buffer_data l') pay
    \<and> pending s' = rest \<and> emitted s' = emitted s @ notices noise"
  using receive_frame [OF assms] by metis

theorem receive_packet_witness:
  "\<exists>l' s'. SerialReceiveAndParsePacket (replicate 100 0) (replicate 100 0)
       (receiving (bytes_of ''XY'' @ frame (bytes_of ''Ts'') PACKET_INT [0, 0, 0, 5] @ bytes_of ''rest''))
     = Returned PACKET_INT l' s'
     \<and> holds (buffer_label l') (bytes_of ''Ts'') \<and> holds (buffer_data l') [0, 0, 0, 5]
     \<and> pending s' = bytes_of ''rest'' \<and> emitted s' = notices (bytes_of ''XY'')"
  using receive_packet [of "replicate 100 0" "replicate 100 0" "bytes_of ''XY''" "bytes_of ''Ts''"
      PACKET_INT "[0, 0, 0, 5]"
      "receiving (bytes_of ''XY'' @ frame (bytes_of ''Ts'') PACKET_INT [0, 0, 0, 5] @ bytes_of ''rest'')"
      "bytes_of ''rest''"]
  by (simp add: ground_simps)

text \<open>
  C7: A label that does not leave room for its terminator in the label buffer
  makes the receiver write outside the buffer, as soon as the type marker
  that ends the label has been read: the source has no bounds check, and the
  call ends in the fault \<open>BufferOverrun\<close>.
\<close>

theorem receive_label_overrun:
  assumes "int (length bl) \<le> INT_MAX" and "int (length bd) \<le> INT_MAX"
    and "PACKET_START \<notin> set noise" and "unmarked lab" and "label_mark t"
    and "length bl \<le> length lab"
    and "pending s = noise @ PACKET_START # lab @ t # rest"
  shows "SerialReceiveAndParsePacket bl bd s = Failed BufferOverrun"
  using receive_matches [OF assms(1,2), of s] run_start_label_overrun [OF assms(3-6)] assms(7)
  by (auto dest: matches_Overflowed)

theorem receive_label_overrun_witness:
  "SerialReceiveAndParsePacket (replicate 3 0) (replicate 100 0)
     (receiving (frame (bytes_of ''Stm'') PACKET_CHAR [0x31])) = Failed BufferOverrun"
  using receive_label_overrun [of "replicate 3 0" "replicate 100 0" "[]" "bytes_of ''Stm''"
      PACKET_CHAR "receiving (frame (bytes_of ''Stm'') PACKET_CHAR [0x31])" "[0x31, PACKET_END]"]
  by (simp add: ground_simps frame_def)

text \<open>
  C8: A payload that does not leave room for its terminator in the data buffer
  makes the receiver write outside the buffer, although the frame is well
  formed and its label fits: the call ends in the fault \<open>BufferOverrun\<close>.
\<close>

theorem receive_payload_overrun:
  assumes "int (length bl) \<le> INT_MAX" and "int (length bd) \<le> INT_MAX"
    and "PACKET_START \<notin> set noise" and "unmarked lab" and "label_mark t" and "plain_payload pay"
    and "length lab < length bl" and "length bd \<le> length pay"
    and "pending s = noise @ frame lab t pay @ rest"
  shows "SerialReceiveAndParsePacket bl bd s = Failed BufferOverrun"
  using receive_matches [OF assms(1,2), of s] run_frame_payload_overrun [OF assms(3-8)] assms(9)
  by (auto dest: matches_Overflowed)

theorem receive_payload_overrun_witness:
  "SerialReceiveAndParsePacket (replicate 100 0) (replicate 4 0)
     (receiving (frame (bytes_of ''Ts'') PACKET_INT [0, 0, 0, 5])) = Failed BufferOverrun"
  using receive_payload_overrun [of "replicate 100 0" "replicate 4 0" "[]" "bytes_of ''Ts''"
      PACKET_INT "[0, 0, 0, 5]" "receiving (frame (bytes_of ''Ts'') PACKET_INT [0, 0, 0, 5])" "[]"]
  by (simp add: ground_simps)

text \<open>
  C26: There is no timeout: when the stream ends inside a packet, the receiver
  does not return. It is left polling, with the label and the payload bytes
  seen so far in its buffers, and continues from there when more bytes arrive.
\<close>

theorem receive_unfinished:
  assumes "int (length bl) \<le> INT_MAX" and "int (length bd) \<le> INT_MAX"
    and "PACKET_START \<notin> set noise" and "unmarked lab" and "label_mark t" and "plain_payload pay"
    and "length lab < length bl" and "length pay \<le> length bd"
    and "pending s = noise @ PACKET_START # lab @ t # pay"
  shows "\<exists>l' s'. SerialReceiveAndParsePacket bl bd s = Running l' s'
    \<and> tracks l' (CollectingPayload lab t pay) \<and> pending s' = []
    \<and> emitted s' = emitted s @ notices noise"
  using receive_matches [OF assms(1,2), of s] run_incomplete [OF assms(3-8)] assms(9)
  by (auto dest!: matches_Awaiting)

theorem receive_unfinished_witness:
  "\<exists>l' s'. SerialReceiveAndParsePacket (replicate 100 0) (replicate 100 0)
       (receiving (bytes_of ''<Ts|'' @ [0, 0])) = Running l' s'
     \<and> tracks l' (CollectingPayload (bytes_of ''Ts'') PACKET_INT [0, 0]) \<and> pending s' = []
     \<and> emitted s' = []"
  using receive_unfinished [of "replicate 100 0" "replicate 100 0" "[]" "bytes_of ''Ts''"
      PACKET_INT "[0, 0]" "receiving (bytes_of ''<Ts|'' @ [0, 0])"]
  by (simp add: ground_simps notices_def)

end
