(* ===== verification/Delivery.thy ===== *)
theory Delivery
  imports Packet_Decoder
begin

text \<open>
  The receiver does not depend on how the peer's bytes arrive. Two ports are
  the \<open>same_stream\<close> when they agree on the input still to be read, on what has
  been emitted and on the time spent, whatever is already in the receive queue
  and whatever comes later, and whatever has left the transmit queue already.
  Two results of the receiver \<open>agree\<close> when they are of the same kind with the
  same locals, buffers included, and ports that are the same stream. The
  lemmas show that one pass of the loop body maps the same stream to results
  that agree, and the main result is that the whole loop does.
\<close>

section \<open>Ports that are the same stream\<close>

definition same_stream :: "serial \<Rightarrow> serial \<Rightarrow> bool" where
  "same_stream s s' \<longleftrightarrow>
     pending s = pending s' \<and> emitted s = emitted s' \<and> elapsed s = elapsed s'"

fun agree :: "outcome \<Rightarrow> outcome \<Rightarrow> bool" where
  "agree (Running l s) (Running l' s') \<longleftrightarrow> l = l' \<and> same_stream s s'"
| "agree (Returned t l s) (Returned t' l' s') \<longleftrightarrow> t = t' \<and> l = l' \<and> same_stream s s'"
| "agree (Failed e) (Failed e') \<longleftrightarrow> e = e'"
| "agree _ _ \<longleftrightarrow> False"

lemma same_stream_refl [simp]: "same_stream s s"
  by (simp add: same_stream_def)

lemma same_stream_sym: "same_stream s s' \<Longrightarrow> same_stream s' s"
  by (simp add: same_stream_def)

lemma same_stream_trans: "same_stream s s' \<Longrightarrow> same_stream s' s'' \<Longrightarrow> same_stream s s''"
  by (simp add: same_stream_def)

lemma same_stream_tick [simp]: "same_stream (tick s) s' \<longleftrightarrow> same_stream s s'"
  by (simp add: same_stream_def)

lemma same_stream_read:
  assumes "same_stream s s'" and "rx s = b # bs" and "rx s' = b' # bs'"
  shows "b' = b" and "same_stream (s\<lparr>rx := bs\<rparr>) (s'\<lparr>rx := bs'\<rparr>)"
  using assms by (simp_all add: same_stream_def pending_def emitted_def)

lemma same_stream_notice:
  "same_stream s s' \<Longrightarrow>
   same_stream (Serial_write x (SerialSendErrorText m s)) (Serial_write x (SerialSendErrorText m s'))"
  by (simp add: same_stream_def sendsD(5,6,7) [OF sends_ErrorText])

lemma same_stream_starved:
  assumes "same_stream s s'" and "rx s = []" and "incoming s = []"
  shows "pending s' = []"
  using assms by (simp add: same_stream_def pending_def)

lemma agree_refl [simp]: "agree r r"
  by (cases r) simp_all

lemma agree_sym: "agree r r' \<Longrightarrow> agree r' r"
  by (cases r; cases r') (simp_all add: same_stream_def)

lemma agree_trans: "agree r r' \<Longrightarrow> agree r' r'' \<Longrightarrow> agree r r''"
  by (cases r; cases r'; cases r'') (simp_all add: same_stream_def)

lemma agree_checked: "(\<And>x. agree (k x) (k' x)) \<Longrightarrow> agree (checked r k) (checked r k')"
  by (cases r) simp_all


section \<open>One pass on the same stream\<close>

lemma body_agree:
  assumes "same_stream s s'" and "rx s = b # bs" and "rx s' = b # bs'"
  shows "agree (loop_body l s) (loop_body l s')"
proof -
  note read = same_stream_read(2) [OF assms]
  from assms(2) show ?thesis
  proof (cases rule: body_cases [where l = l])
    case label_mark
    with assms(2,3) read show ?thesis
      by (simp add: body_label_mark agree_checked)
  next
    case label_byte
    with assms(2,3) read show ?thesis
      by (simp add: body_label_byte agree_checked)
  next
    case data_end
    with assms(2,3) read show ?thesis
      by (simp add: body_data_end agree_checked)
  next
    case data_byte
    with assms(2,3) read show ?thesis
      by (simp add: body_data_byte agree_checked)
  next
    case idle_start
    with assms(2,3) read show ?thesis
      by (simp add: body_idle_start)
  next
    case idle_noise
    with assms(2,3) read show ?thesis
      by (simp add: body_idle_noise same_stream_notice)
  qed
qed

lemma body_keeps_script:
  assumes "rx s = b # bs" and "loop_body l s = Running l' s'"
  shows "incoming s' = incoming s"
  using assms(1)
proof (cases rule: body_cases [where l = l])
  case idle_noise
  with assms show ?thesis
    by (auto simp: body_idle_noise sendsD(4) [OF sends_ErrorText])
qed (use assms in \<open>auto simp: body_eqs checked_iffs\<close>)


section \<open>The loop on the same stream\<close>

lemma agree_Running:
  assumes "agree (Running l1 s1) r"
  obtains s1' where "r = Running l1 s1'" and "same_stream s1 s1'"
  using assms by (cases r) simp_all

lemma agree_carry_on_final:
  "agree (Returned t l s) r \<Longrightarrow> agree (Returned t l s) (carry_on r k)"
  "agree (Failed e) r \<Longrightarrow> agree (Failed e) (carry_on r k)"
  by (cases r, simp_all)+

lemma loop_agree_flat:
  assumes "same_stream s s'" and "incoming s' = []"
  shows "agree (parse_loop l s) (parse_loop l s')"
  using assms
proof (induction l s arbitrary: s' rule: loop_induct)
  case (ended l s)
  then show ?case
    by (simp add: loop_end)
next
  case (starved l s)
  then have "rx s' = []"
    by (simp add: same_stream_def pending_def)
  with starved show ?case
    by (simp add: loop_starved)
next
  case (wait l s)
  then have "agree (parse_loop l (tick s)) (parse_loop l s')"
    by simp
  with wait show ?case
    by (simp add: loop_wait)
next
  case (read l s)
  then obtain b bs bs' where rx: "rx s = b # bs" "rx s' = b # bs'"
    by (cases "rx s"; cases "rx s'") (auto simp: same_stream_def pending_def)
  have body: "agree (loop_body l s) (loop_body l s')"
    using read.prems(1) rx by (rule body_agree)
  from read rx have eq: "parse_loop l s = carry_on (loop_body l s) parse_loop"
    "parse_loop l s' = carry_on (loop_body l s') parse_loop"
    by (simp_all add: loop_read)
  show ?case
  proof (cases "loop_body l s")
    case (Running l1 s1)
    with body obtain s1' where r': "loop_body l s' = Running l1 s1'" and ss: "same_stream s1 s1'"
      by (auto elim: agree_Running)
    from rx(2) r' read.prems(2) have "incoming s1' = []"
      by (simp add: body_keeps_script)
    with Running ss have "agree (parse_loop l1 s1) (parse_loop l1 s1')"
      by (intro read.IH)
    with eq Running r' show ?thesis
      by simp
  qed (use body eq in \<open>simp_all add: agree_carry_on_final\<close>)
qed


definition flat :: "serial \<Rightarrow> serial" where
  "flat s = \<lparr>rx = pending s, txq = [], wire = emitted s, incoming = [], elapsed = elapsed s\<rparr>"

lemma same_stream_flat [simp]: "same_stream s (flat s)"
  by (simp add: same_stream_def flat_def pending_def emitted_def)

lemma incoming_flat [simp]: "incoming (flat s) = []"
  by (simp add: flat_def)

lemma flat_cong: "same_stream s s' \<Longrightarrow> flat s = flat s'"
  by (simp add: same_stream_def flat_def)

lemma loop_agree:
  assumes "same_stream s s'"
  shows "agree (parse_loop l s) (parse_loop l s')"
proof -
  have "agree (parse_loop l s) (parse_loop l (flat s))"
    by (rule loop_agree_flat) simp_all
  moreover have "agree (parse_loop l s') (parse_loop l (flat s'))"
    by (rule loop_agree_flat) simp_all
  then have "agree (parse_loop l (flat s)) (parse_loop l s')"
    unfolding flat_cong [OF assms] by (rule agree_sym)
  ultimately show ?thesis
    by (rule agree_trans)
qed

lemma same_stream_scripted: "same_stream (scripted cs) (receiving (concat cs))"
  by (simp add: same_stream_def scripted_def receiving_def idle_port_def pending_def emitted_def)

section \<open>Properties\<close>

text \<open>
  C10: The receiver depends on the stream only. On two ports that agree on the
  input still to be read, on what has been emitted and on the time spent,
  \<open>SerialReceiveAndParsePacket\<close> gives results of the same kind, with the same
  returned marker or the same fault, identical locals and buffers, and ports
  that again agree; so the result does not depend on how the input is cut into
  deliveries.
\<close>

theorem receive_stream_only:
  assumes "pending s = pending s'" and "emitted s = emitted s'" and "elapsed s = elapsed s'"
  shows "agree (SerialReceiveAndParsePacket bl bd s) (SerialReceiveAndParsePacket bl bd s')"
  using assms by (simp add: SerialReceiveAndParsePacket_def loop_agree same_stream_def)

theorem receive_stream_only_witness:
  "agree
     (SerialReceiveAndParsePacket [0, 0, 0] (replicate 5 0)
        (scripted [[0x3C, 0x54], [], [0x73, 0x7C, 0, 0], [0, 5, 0x3E, 0x3C]]))
     (SerialReceiveAndParsePacket [0, 0, 0] (replicate 5 0)
        (receiving [0x3C, 0x54, 0x73, 0x7C, 0, 0, 0, 5, 0x3E, 0x3C]))"
  using receive_stream_only [of "scripted [[0x3C, 0x54], [], [0x73, 0x7C, 0, 0], [0, 5, 0x3E, 0x3C]]"
      "receiving [0x3C, 0x54, 0x73, 0x7C, 0, 0, 0, 5, 0x3E, 0x3C]" "[0, 0, 0]" "replicate 5 0"]
  by (simp add: scripted_def receiving_def idle_port_def pending_def emitted_def)

text \<open>
  In particular, a packet delivered in pieces is the packet delivered at once. If the
  receiver returns on a script of deliveries, it returns the same marker with
  the same label and data buffers when the concatenation of the script is
  already in the receive queue, and leaves the same input unread.
\<close>

theorem receive_chunking:
  assumes "SerialReceiveAndParsePacket bl bd (scripted cs) = Returned t l' s1"
  shows "\<exists>s2. SerialReceiveAndParsePacket bl bd (receiving (concat cs)) = Returned t l' s2
    \<and> pending s2 = pending s1 \<and> emitted s2 = emitted s1"
proof -
  have "agree (parse_loop (fresh_locals bl bd) (scripted cs))
      (parse_loop (fresh_locals bl bd) (receiving (concat cs)))"
    using same_stream_scripted by (rule loop_agree)
  with assms show ?thesis
    by (cases "parse_loop (fresh_locals bl bd) (receiving (concat cs))")
      (simp_all add: SerialReceiveAndParsePacket_def same_stream_def)
qed

theorem receive_chunking_witness:
  "\<exists>s2. SerialReceiveAndParsePacket [0, 0, 0] (replicate 5 0)
       (receiving (concat [[0x3C, 0x54], [], [0x73, 0x7C, 0, 0], [0, 5, 0x3E, 0x3C]]))
     = Returned PACKET_INT
         \<lparr>flag_ser_label = False, flag_ser_data = False, flag_ser_end = True,
            data_type = Some PACKET_INT, length_label = 2, length_data = 4,
            buffer_label = [0x54, 0x73, 0], buffer_data = [0, 0, 0, 5, 0]\<rparr> s2
     \<and> pending s2 = [0x3C] \<and> emitted s2 = []"
proof -
  have "SerialReceiveAndParsePacket [0, 0, 0] (replicate 5 0)
       (scripted [[0x3C, 0x54], [], [0x73, 0x7C, 0, 0], [0, 5, 0x3E, 0x3C]])
     = Returned PACKET_INT
         \<lparr>flag_ser_label = False, flag_ser_data = False, flag_ser_end = True,
            data_type = Some PACKET_INT, length_label = 2, length_data = 4,
            buffer_label = [0x54, 0x73, 0], buffer_data = [0, 0, 0, 5, 0]\<rparr>
         \<lparr>rx = [0x3C], txq = [], wire = [], incoming = [], elapsed = 0\<rparr>"
    by code_simp
  from receive_chunking [OF this] show ?thesis
    by (simp add: pending_def emitted_def)
qed

end
