(* ===== verification/Receiver_Steps.thy ===== *)
theory Receiver_Steps
  imports Decoder_Spec
begin

text \<open>
  The loop of \<open>SerialReceiveAndParsePacket\<close> as a transition system. A
  configuration is a result of the receiver: \<open>Running\<close> with the locals and the
  port while the loop is executing, \<open>Returned\<close> or \<open>Failed\<close> once the function
  has been left. The relation \<open>loop_step\<close> is one iteration of the \<open>while\<close> loop:
  a pass through the body, an iteration that finds nothing while the peer
  delivers, an iteration that finds nothing and changes nothing, or the exit
  at the loop condition. Every configuration inside the loop has exactly one
  step, so the loop ends only by \<open>return\<close> or by a fault, and otherwise iterates
  for ever. The lemmas show that the relation is deterministic and total
  inside the loop, that every iteration but the idle one uses up exactly one
  byte or one delivery, that the value \<open>Running\<close> of \<open>parse_loop\<close> stands for the
  executions without end, and that an invariant holds in every configuration
  that can be reached.
\<close>

section \<open>Steps of the loop\<close>

inductive loop_step :: "outcome \<Rightarrow> outcome \<Rightarrow> bool" where
  pass: "\<not> flag_ser_end l \<Longrightarrow> 0 < Serial_available s \<Longrightarrow>
         loop_step (Running l s) (loop_body l s)"
| poll: "\<not> flag_ser_end l \<Longrightarrow> \<not> 0 < Serial_available s \<Longrightarrow> incoming s \<noteq> [] \<Longrightarrow>
         loop_step (Running l s) (Running l (tick s))"
| spin: "\<not> flag_ser_end l \<Longrightarrow> \<not> 0 < Serial_available s \<Longrightarrow> incoming s = [] \<Longrightarrow>
         loop_step (Running l s) (Running l s)"
| leave: "flag_ser_end l \<Longrightarrow> loop_step (Running l s) (Failed NoReturnValue)"

inductive_cases step_RunningE: "loop_step (Running l s) c"
inductive_cases step_ReturnedE [elim!]: "loop_step (Returned t l s) c"
inductive_cases step_FailedE [elim!]: "loop_step (Failed e) c"

inductive_simps step_Running_iff: "loop_step (Running l s) c"
inductive_simps step_Returned_iff [simp]: "loop_step (Returned t l s) c"
inductive_simps step_Failed_iff [simp]: "loop_step (Failed e) c"

code_pred loop_step .

text \<open>
  The function has been left in a configuration that is \<open>finished\<close>. The loop
  \<open>rests\<close> where the function has been left or where it can only repeat the
  idle iteration: nothing to read and nothing more to come.
\<close>

fun finished :: "outcome \<Rightarrow> bool" where
  "finished (Running l s) \<longleftrightarrow> False"
| "finished (Returned t l s) \<longleftrightarrow> True"
| "finished (Failed e) \<longleftrightarrow> True"

fun rests :: "outcome \<Rightarrow> bool" where
  "rests (Running l s) \<longleftrightarrow> \<not> flag_ser_end l \<and> rx s = [] \<and> incoming s = []"
| "rests (Returned t l s) \<longleftrightarrow> True"
| "rests (Failed e) \<longleftrightarrow> True"

fun toll :: "outcome \<Rightarrow> nat" where
  "toll (Running l s) = cost s"
| "toll (Returned t l s) = cost s"
| "toll (Failed e) = 0"

section \<open>Determinism, totality and rest\<close>

lemma step_deterministic: "loop_step c c' \<Longrightarrow> loop_step c c'' \<Longrightarrow> c' = c''"
  by (induction rule: loop_step.induct) (auto elim: step_RunningE)

lemma step_total: "\<not> finished c \<Longrightarrow> \<exists>c'. loop_step c c'"
proof (cases c)
  case (Running l s)
  then show ?thesis
    using pass [of l s] poll [of l s] spin [of l s] leave [of l s] by blast
qed simp_all

lemma finished_iff_no_step: "finished c \<longleftrightarrow> (\<forall>c'. \<not> loop_step c c')"
  using step_total [of c] by (cases c) auto

lemma body_moves: "0 < Serial_available s \<Longrightarrow> loop_body l s \<noteq> Running l' s"
  using body_consumes [of s l l' s] by auto

lemma tick_moves: "incoming s \<noteq> [] \<Longrightarrow> tick s \<noteq> s"
  using cost_tick [of s] by auto

lemma rests_iff_fixed: "rests c \<longleftrightarrow> (\<forall>c'. loop_step c c' \<longrightarrow> c' = c)"
  by (cases c) (auto simp: step_Running_iff available_pos_iff body_moves tick_moves)

lemma rests_step: "rests c \<Longrightarrow> loop_step c c' \<Longrightarrow> c' = c"
  by (simp add: rests_iff_fixed)

lemma star_rests: "loop_step\<^sup>*\<^sup>* c c' \<Longrightarrow> rests c \<Longrightarrow> c' = c"
  by (induction rule: rtranclp_induct) (auto dest: rests_step)

lemma steps_deterministic: "(loop_step ^^ n) c a \<Longrightarrow> (loop_step ^^ n) c b \<Longrightarrow> a = b"
proof (induction n arbitrary: a b)
  case 0
  then show ?case by simp
next
  case (Suc n)
  then obtain a' b' where "(loop_step ^^ n) c a'" "loop_step a' a" "(loop_step ^^ n) c b'" "loop_step b' b"
    by auto
  with Suc.IH [of a' b'] show ?case
    by (auto dest: step_deterministic)
qed

section \<open>What an iteration uses up\<close>

lemma body_toll:
  assumes "rx s = b # bs" and "\<not> (\<exists>e. loop_body l s = Failed e)"
  shows "Suc (toll (loop_body l s)) = cost s"
  using assms
  by (auto simp: loop_body_def Serial_available_def Serial_read_def checked_def cost_def
      sendsD [OF sends_ErrorText] split: if_splits sum.splits option.splits)

lemma tick_toll: "incoming s \<noteq> [] \<Longrightarrow> Suc (cost (tick s)) = cost s"
  by (cases "incoming s") (simp_all add: cost_def tick_def)

lemma step_toll:
  assumes "loop_step c c'" and "\<not> rests c" and "\<not> (\<exists>e. c' = Failed e)"
  shows "Suc (toll c') = toll c"
  using assms
proof (induction rule: loop_step.induct)
  case (pass l s)
  then obtain b bs where "rx s = b # bs"
    by (cases "rx s") (auto simp: available_pos_iff)
  with pass show ?case
    by (simp add: body_toll)
qed (simp_all add: tick_toll available_pos_iff)

lemma steps_toll:
  assumes "(loop_step ^^ n) c (Returned t l s)"
  shows "n + cost s = toll c"
  using assms
proof (induction n arbitrary: c)
  case 0
  then show ?case by simp
next
  case (Suc n)
  from relpowp_Suc_D2 [OF Suc.prems]
  obtain c' where first: "loop_step c c'" and more: "(loop_step ^^ n) c' (Returned t l s)"
    by blast
  from more have star: "loop_step\<^sup>*\<^sup>* c' (Returned t l s)"
    by (rule relpowp_imp_rtranclp)
  have "\<not> rests c"
  proof
    assume "rests c"
    with first star have "Returned t l s = c" "loop_step c c"
      by (auto dest: rests_step star_rests)
    then show False
      by auto
  qed
  moreover have "\<not> (\<exists>e. c' = Failed e)"
    using star by (auto dest: star_rests)
  ultimately have "Suc (toll c') = toll c"
    using first by (intro step_toll)
  with Suc.IH [OF more] show ?case
    by simp
qed

lemma steps_after_finished:
  assumes "(loop_step ^^ n) c c'" and "finished c'" and "(loop_step ^^ m) c c''"
  shows "m \<le> n"
  using assms
proof (induction n arbitrary: c m)
  case 0
  show ?case
  proof (cases m)
    case (Suc m')
    with 0(3) have "(loop_step ^^ Suc m') c c''"
      by simp
    from relpowp_Suc_D2 [OF this] obtain c1 where "loop_step c c1"
      by blast
    with 0(1,2) show ?thesis
      by (simp add: finished_iff_no_step)
  qed simp
next
  case (Suc n)
  show ?case
  proof (cases m)
    case m: (Suc m')
    from relpowp_Suc_D2 [OF Suc.prems(1)]
    obtain c1 where c1: "loop_step c c1" "(loop_step ^^ n) c1 c'"
      by blast
    from Suc.prems(3) m have "(loop_step ^^ Suc m') c c''"
      by simp
    from relpowp_Suc_D2 [OF this] obtain c2 where c2: "loop_step c c2" "(loop_step ^^ m') c2 c''"
      by blast
    from c1(1) c2(1) have "c2 = c1"
      by (rule step_deterministic [symmetric])
    with Suc.IH [OF c1(2) Suc.prems(2), of m'] c2(2) m show ?thesis
      by simp
  qed simp
qed

section \<open>The function computes the rest\<close>

lemma star_parse_loop: "loop_step\<^sup>*\<^sup>* (Running l s) (parse_loop l s)"
proof (induction rule: parse_loop_result_induct)
  case (ended l s)
  then show ?case
    by (simp add: leave r_into_rtranclp)
next
  case (wait l s r)
  then have "loop_step (Running l s) (Running l (tick s))"
    by (simp add: poll available_pos_iff)
  with wait(4) show ?case
    by (simp add: converse_rtranclp_into_rtranclp)
next
  case (pass l s l' s' r)
  then have "loop_step (Running l s) (Running l' s')"
    using loop_step.pass [of l s] by (simp add: available_pos_iff)
  with pass(4) show ?case
    by (simp add: converse_rtranclp_into_rtranclp)
next
  case (returned l s t l' s')
  then show ?case
    using loop_step.pass [of l s] by (simp add: available_pos_iff r_into_rtranclp)
next
  case (failed l s e)
  then show ?case
    using loop_step.pass [of l s] by (simp add: available_pos_iff r_into_rtranclp)
qed simp

lemma rests_parse_loop: "rests (parse_loop l s)"
  by (induction rule: parse_loop_result_induct) simp_all

section \<open>Executions with and without end\<close>

text \<open>
  Where \<open>parse_loop\<close> returns, the loop reaches the return after a number of
  iterations that is the number of bytes read and deliveries waited for, and
  no execution is longer. Where \<open>parse_loop\<close> has the value \<open>Running\<close>, the loop
  reaches that configuration, repeats the idle iteration there for ever, and
  no execution leaves the function.
\<close>

lemma returns_in_steps:
  assumes "parse_loop l s = Returned t l' s'"
  shows "\<exists>n. (loop_step ^^ n) (Running l s) (Returned t l' s') \<and> n + cost s' = cost s
    \<and> (\<forall>m c. (loop_step ^^ m) (Running l s) c \<longrightarrow> m \<le> n)"
proof -
  from star_parse_loop [of l s] assms
  obtain n where n: "(loop_step ^^ n) (Running l s) (Returned t l' s')"
    by (auto dest: rtranclp_imp_relpowp)
  from steps_toll [OF n] have "n + cost s' = cost s"
    by simp
  moreover have "m \<le> n" if "(loop_step ^^ m) (Running l s) c" for m c
    using steps_after_finished [OF n _ that] by simp
  ultimately show ?thesis
    using n by blast
qed

lemma idle_for_ever: "rests c \<Longrightarrow> \<not> finished c \<Longrightarrow> (loop_step ^^ n) c c"
proof (induction n)
  case 0
  show ?case by simp
next
  case (Suc n)
  then obtain c' where "loop_step c c'"
    using step_total by blast
  with Suc show ?case
    by (auto dest: rests_step)
qed

lemma settles_in_steps:
  assumes "parse_loop l s = Running l' s'"
  shows "\<exists>k. \<forall>n\<ge>k. (loop_step ^^ n) (Running l s) (Running l' s')"
proof -
  from star_parse_loop [of l s] assms
  obtain k where k: "(loop_step ^^ k) (Running l s) (Running l' s')"
    by (auto dest: rtranclp_imp_relpowp)
  from rests_parse_loop [of l s] assms
  have idle: "(loop_step ^^ m) (Running l' s') (Running l' s')" for m
    by (simp add: idle_for_ever)
  have "(loop_step ^^ n) (Running l s) (Running l' s')" if "k \<le> n" for n
  proof -
    from k idle [of "n - k"] have "(loop_step ^^ (k + (n - k))) (Running l s) (Running l' s')"
      by (auto simp: relpowp_add)
    with that show ?thesis
      by simp
  qed
  then show ?thesis
    by blast
qed

lemma never_finished:
  assumes "parse_loop l s = Running l' s'" and "(loop_step ^^ n) (Running l s) c"
  shows "\<not> finished c"
proof
  assume "finished c"
  from settles_in_steps [OF assms(1)] obtain k
    where "\<forall>m\<ge>k. (loop_step ^^ m) (Running l s) (Running l' s')"
    by blast
  then have "(loop_step ^^ max k (Suc n)) (Running l s) (Running l' s')"
    by simp
  from steps_after_finished [OF assms(2) \<open>finished c\<close> this] show False
    by simp
qed

section \<open>An invariant of all reachable configurations\<close>

fun sound :: "locals \<Rightarrow> outcome \<Rightarrow> bool" where
  "sound l (Running l' s') \<longleftrightarrow> wf_locals l' \<and> same_buffers l l'"
| "sound l (Returned t l' s') \<longleftrightarrow> same_buffers l l'"
| "sound l (Failed e) \<longleftrightarrow> e \<noteq> NoReturnValue \<and> e \<noteq> IndeterminateValue"

lemma body_sound:
  assumes "wf_locals l1" and "same_buffers l l1" and "rx s \<noteq> []"
  shows "sound l (loop_body l1 s)"
proof -
  from assms(3) obtain b bs where rx: "rx s = b # bs"
    by (cases "rx s") auto
  show ?thesis
  proof (cases "loop_body l1 s")
    case (Running l2 s2)
    with assms show ?thesis
      using body_Running_wf [of l1 s l2 s2] by (auto intro: same_buffers_trans)
  next
    case (Returned t l2 s2)
    from body_Returned [OF assms(1) rx Returned]
    have "l2 = l1\<lparr>flag_ser_data := False, flag_ser_end := True,
        buffer_data := (buffer_data l1)[nat (length_data l1) := 0]\<rparr>"
      by simp
    with assms(2) Returned show ?thesis
      by (simp add: same_buffers_def)
  next
    case (Failed e)
    with body_Failed [OF assms(1) rx Failed] show ?thesis
      by auto
  qed
qed

lemma step_sound: "loop_step c c' \<Longrightarrow> sound l c \<Longrightarrow> sound l c'"
proof (induction rule: loop_step.induct)
  case (pass l1 s)
  then show ?case
    by (simp add: body_sound available_pos_iff)
next
  case (leave l1 s)
  then show ?case
    by (simp add: wf_locals_def)
qed simp

lemma star_sound: "loop_step\<^sup>*\<^sup>* c c' \<Longrightarrow> sound l c \<Longrightarrow> sound l c'"
  by (induction rule: rtranclp_induct) (auto intro: step_sound)

section \<open>Properties\<close>

text \<open>
  C6: The invariant holds in every configuration the loop can reach, not only
  where it rests. From locals that satisfy the invariant, every reachable
  configuration that is still in the loop satisfies it with buffers of
  unchanged size, every return leaves the buffers at their size, and no
  reachable failure is the end of the function without \<open>return\<close> or the return
  of an unassigned \<open>data_type\<close>.
\<close>

theorem reachable_sound:
  assumes "wf_locals l" and "loop_step\<^sup>*\<^sup>* (Running l s) c"
  shows "sound l c"
  using assms(2) by (rule star_sound) (simp add: assms(1))

theorem reachable_sound_witness:
  "wf_locals (fresh_locals [0, 0] [0, 0])
   \<and> loop_step\<^sup>*\<^sup>* (Running (fresh_locals [0, 0] [0, 0]) (receiving [PACKET_START, 0x54]))
      (Running ((fresh_locals [0, 0] [0, 0])\<lparr>flag_ser_label := True\<rparr>) (receiving [0x54]))
   \<and> sound (fresh_locals [0, 0] [0, 0])
      (Running ((fresh_locals [0, 0] [0, 0])\<lparr>flag_ser_label := True\<rparr>) (receiving [0x54]))"
proof -
  have "loop_step (Running (fresh_locals [0, 0] [0, 0]) (receiving [PACKET_START, 0x54]))
      (Running ((fresh_locals [0, 0] [0, 0])\<lparr>flag_ser_label := True\<rparr>) (receiving [0x54]))"
    using pass [of "fresh_locals [0, 0] [0, 0]" "receiving [PACKET_START, 0x54]"]
    by (simp add: fresh_locals_def receiving_def idle_port_def body_idle_start Serial_available_def)
  then have run: "loop_step\<^sup>*\<^sup>* (Running (fresh_locals [0, 0] [0, 0]) (receiving [PACKET_START, 0x54]))
      (Running ((fresh_locals [0, 0] [0, 0])\<lparr>flag_ser_label := True\<rparr>) (receiving [0x54]))"
    by (rule r_into_rtranclp)
  from reachable_sound [OF wf_fresh run] wf_fresh [of "[0, 0]" "[0, 0]"] run show ?thesis
    by blast
qed

text \<open>
  C12: The call returns after a known number of iterations. When the state
  machine of the specification, run on the input that is pending and still to
  be delivered, delivers a packet, the loop of the source reaches the \<open>return\<close>
  with that packet's type marker after \<open>n\<close> iterations, where \<open>n\<close> is the number
  of bytes read plus the number of deliveries waited for (the cost of the
  port before the call less its cost at the return); the input after the
  packet is left unread; and no execution of the loop has more than \<open>n\<close>
  iterations.
\<close>

theorem receiver_returns_after:
  assumes "int (length bl) \<le> INT_MAX" and "int (length bd) \<le> INT_MAX"
    and "run (length bl) (length bd) Idle (pending s) = Delivered ns lab t pay rest"
  shows "\<exists>n l' s'. (loop_step ^^ n) (Running (fresh_locals bl bd) s) (Returned t l' s')
    \<and> n + cost s' = cost s \<and> pending s' = rest
    \<and> (\<forall>m c. (loop_step ^^ m) (Running (fresh_locals bl bd) s) c \<longrightarrow> m \<le> n)"
proof -
  from receive_matches [OF assms(1,2), of s] assms(3)
  obtain l' s' where "parse_loop (fresh_locals bl bd) s = Returned t l' s'" and "pending s' = rest"
    by (auto dest!: matches_Delivered simp: SerialReceiveAndParsePacket_def)
  with returns_in_steps [of "fresh_locals bl bd" s t l' s'] show ?thesis
    by blast
qed

theorem receiver_returns_after_witness:
  "run 4 6 Idle (pending (scripted [bytes_of ''X<Ts'', [], 0x7C # [0, 0, 0, 5] @ bytes_of ''>r'']))
     = Delivered (bytes_of ''X'') (bytes_of ''Ts'') PACKET_INT [0, 0, 0, 5] (bytes_of ''r'')
   \<and> (\<exists>n l' s'. (loop_step ^^ n) (Running (fresh_locals (replicate 4 0) (replicate 6 0))
          (scripted [bytes_of ''X<Ts'', [], 0x7C # [0, 0, 0, 5] @ bytes_of ''>r'']))
        (Returned PACKET_INT l' s')
      \<and> n + cost s' = 14 \<and> pending s' = bytes_of ''r''
      \<and> (\<forall>m c. (loop_step ^^ m) (Running (fresh_locals (replicate 4 0) (replicate 6 0))
             (scripted [bytes_of ''X<Ts'', [], 0x7C # [0, 0, 0, 5] @ bytes_of ''>r''])) c
           \<longrightarrow> m \<le> n))"
proof -
  let ?s = "scripted [bytes_of ''X<Ts'', [], 0x7C # [0, 0, 0, 5] @ bytes_of ''>r'']"
  have spec: "run 4 6 Idle (pending ?s)
      = Delivered (bytes_of ''X'') (bytes_of ''Ts'') PACKET_INT [0, 0, 0, 5] (bytes_of ''r'')"
    by code_simp
  have "cost ?s = 14"
    by (simp add: cost_def scripted_def idle_port_def)
  with spec receiver_returns_after [of "replicate 4 0" "replicate 6 0" ?s "bytes_of ''X''"
      "bytes_of ''Ts''" PACKET_INT "[0, 0, 0, 5]" "bytes_of ''r''"]
  show ?thesis
    by (simp add: INT_MAX_def)
qed

text \<open>
  C16: The call has no way out but a packet or a fault. When the state machine
  of the specification, run on all the input there is, still awaits bytes in
  a state \<open>d\<close>, the loop of the source reaches a configuration that holds \<open>d\<close> in
  its locals with nothing left to read, is in that same configuration after
  every larger number of iterations, and no execution of any length has left
  the function: the caller is blocked for ever.
\<close>

theorem receiver_polls_for_ever:
  assumes "int (length bl) \<le> INT_MAX" and "int (length bd) \<le> INT_MAX"
    and "run (length bl) (length bd) Idle (pending s) = Awaiting d ns"
  shows "\<exists>k l' s'. tracks l' d \<and> pending s' = []
    \<and> (\<forall>n\<ge>k. (loop_step ^^ n) (Running (fresh_locals bl bd) s) (Running l' s'))
    \<and> (\<forall>n c. (loop_step ^^ n) (Running (fresh_locals bl bd) s) c \<longrightarrow> \<not> finished c)"
proof -
  from receive_matches [OF assms(1,2), of s] assms(3)
  obtain l' s' where loop: "parse_loop (fresh_locals bl bd) s = Running l' s'"
    and "tracks l' d" and "pending s' = []"
    by (auto dest!: matches_Awaiting simp: SerialReceiveAndParsePacket_def)
  with settles_in_steps [OF loop] never_finished [OF loop] show ?thesis
    by blast
qed

theorem receiver_polls_for_ever_witness:
  "run 4 6 Idle (pending (scripted [bytes_of ''X<Ts'', [], 0x7C # [0, 0]]))
     = Awaiting (CollectingPayload (bytes_of ''Ts'') PACKET_INT [0, 0]) (bytes_of ''X'')
   \<and> (\<exists>k l' s'. tracks l' (CollectingPayload (bytes_of ''Ts'') PACKET_INT [0, 0]) \<and> pending s' = []
      \<and> (\<forall>n\<ge>k. (loop_step ^^ n) (Running (fresh_locals (replicate 4 0) (replicate 6 0))
             (scripted [bytes_of ''X<Ts'', [], 0x7C # [0, 0]])) (Running l' s'))
      \<and> (\<forall>n c. (loop_step ^^ n) (Running (fresh_locals (replicate 4 0) (replicate 6 0))
             (scripted [bytes_of ''X<Ts'', [], 0x7C # [0, 0]])) c \<longrightarrow> \<not> finished c))"
proof -
  let ?s = "scripted [bytes_of ''X<Ts'', [], 0x7C # [0, 0]]"
  have spec: "run 4 6 Idle (pending ?s)
      = Awaiting (CollectingPayload (bytes_of ''Ts'') PACKET_INT [0, 0]) (bytes_of ''X'')"
    by code_simp
  with receiver_polls_for_ever [of "replicate 4 0" "replicate 6 0" ?s
      "CollectingPayload (bytes_of ''Ts'') PACKET_INT [0, 0]" "bytes_of ''X''"]
  show ?thesis
    by (simp add: INT_MAX_def)
qed

end
