(* ===== verification/Interleaving.thy ===== *)
theory Interleaving
  imports Receiver_Steps Delivery
begin

text \<open>
  The receiver beside the interrupts of the port. In the other theories a
  delivery of the peer enters the receive queue when the loop polls. Here the
  environment acts on its own, between any two steps of the loop: the
  receive interrupt moves the next byte of the current delivery into the
  receive queue, and the transmit interrupt moves the oldest queued byte onto
  the wire. The relation \<open>sys_step\<close> is a step of the loop or a step of the
  environment. The lemmas show that a step of the environment keeps the
  stream, and the main result that whatever the interleaving, a configuration
  in which the loop rests is the result of \<open>parse_loop\<close>. The last section gives the receive queue a fixed
  capacity: \<open>env_step_within\<close> drops a byte that arrives at a full queue. While
  the bytes to come fit into the queue the two systems have the same runs; on
  a queue that is too small the result depends on the interleaving.
\<close>

section \<open>Steps of the environment and of the system\<close>

inductive env_step :: "outcome \<Rightarrow> outcome \<Rightarrow> bool" where
  arrival: "incoming s = (b # c) # cs \<Longrightarrow>
            env_step (Running l s) (Running l (s\<lparr>rx := rx s @ [b], incoming := c # cs\<rparr>))"
| gap: "incoming s = [] # cs \<Longrightarrow> env_step (Running l s) (Running l (s\<lparr>incoming := cs\<rparr>))"
| departure: "txq s = b # bs \<Longrightarrow>
              env_step (Running l s) (Running l (s\<lparr>txq := bs, wire := wire s @ [b]\<rparr>))"

inductive sys_step :: "outcome \<Rightarrow> outcome \<Rightarrow> bool" where
  program: "loop_step c c' \<Longrightarrow> sys_step c c'"
| interrupt: "env_step c c' \<Longrightarrow> sys_step c c'"

inductive_cases env_RunningE: "env_step (Running l s) c"
inductive_simps env_Returned_iff [simp]: "env_step (Returned t l s) c"
inductive_simps env_Failed_iff [simp]: "env_step (Failed e) c"
inductive_simps sys_step_iff: "sys_step c c'"

code_pred env_step .

fun settle :: "outcome \<Rightarrow> outcome" where
  "settle (Running l s) = parse_loop l s"
| "settle (Returned t l s) = Returned t l s"
| "settle (Failed e) = Failed e"

section \<open>The environment keeps the stream\<close>

lemma env_same_stream:
  assumes "env_step (Running l s) c"
  obtains s' where "c = Running l s'" and "same_stream s s'"
  using assms
  by (cases rule: env_step.cases) (auto simp: same_stream_def pending_def emitted_def)

lemma env_settle: "env_step c c' \<Longrightarrow> agree (settle c) (settle c')"
proof (cases c)
  case (Running l s)
  assume "env_step c c'"
  with Running obtain s' where "c' = Running l s'" and "same_stream s s'"
    by (auto elim: env_same_stream)
  with Running show ?thesis
    by (simp add: loop_agree)
qed simp_all

lemma loop_settle: "loop_step c c' \<Longrightarrow> settle c' = settle c"
proof (induction rule: loop_step.induct)
  case (pass l s)
  then have "parse_loop l s = carry_on (loop_body l s) parse_loop"
    by (simp add: loop_read available_pos_iff)
  then show ?case
    by (cases "loop_body l s") simp_all
next
  case (poll l s)
  then show ?case
    by (simp add: loop_wait available_pos_iff)
next
  case (leave l s)
  then show ?case
    by (simp add: loop_end)
qed simp

lemma sys_settle: "sys_step c c' \<Longrightarrow> agree (settle c) (settle c')"
  by (induction rule: sys_step.induct) (simp_all add: loop_settle env_settle)

lemma star_settle: "sys_step\<^sup>*\<^sup>* c c' \<Longrightarrow> agree (settle c) (settle c')"
proof (induction rule: rtranclp_induct)
  case base
  show ?case by simp
next
  case (step c' c'')
  from step.IH sys_settle [OF step.hyps(2)] show ?case
    by (rule agree_trans)
qed

lemma settle_rests: "rests c \<Longrightarrow> settle c = c"
  by (cases c) (simp_all add: loop_starved)

section \<open>The invariant beside the interrupts\<close>

lemma sys_sound: "sys_step\<^sup>*\<^sup>* c c' \<Longrightarrow> sound l c \<Longrightarrow> sound l c'"
proof (induction rule: rtranclp_induct)
  case (step c' c'')
  from step.hyps(2) step.IH [OF step.prems] show ?case
    by (cases rule: sys_step.cases) (auto intro: step_sound elim: env_step.cases)
qed simp


section \<open>A run with interrupts\<close>

text \<open>
  A start marker arrives by interrupt, the loop reads it, and the delivery
  ends: three steps of the system, two of them of the environment.
\<close>

lemma sample_run:
  "sys_step (Running (fresh_locals [0] [0]) (scripted [[PACKET_START]]))
     (Running (fresh_locals [0] [0]) ((receiving [PACKET_START])\<lparr>incoming := [[]]\<rparr>))"
  "sys_step (Running (fresh_locals [0] [0]) ((receiving [PACKET_START])\<lparr>incoming := [[]]\<rparr>))
     (Running ((fresh_locals [0] [0])\<lparr>flag_ser_label := True\<rparr>) (scripted [[]]))"
  "sys_step (Running ((fresh_locals [0] [0])\<lparr>flag_ser_label := True\<rparr>) (scripted [[]]))
     (Running ((fresh_locals [0] [0])\<lparr>flag_ser_label := True\<rparr>) idle_port)"
proof -
  show "sys_step (Running (fresh_locals [0] [0]) (scripted [[PACKET_START]]))
     (Running (fresh_locals [0] [0]) ((receiving [PACKET_START])\<lparr>incoming := [[]]\<rparr>))"
    using arrival [of "scripted [[PACKET_START]]" PACKET_START "[]" "[]" "fresh_locals [0] [0]"]
    by (simp add: scripted_def receiving_def idle_port_def interrupt)
  show "sys_step (Running (fresh_locals [0] [0]) ((receiving [PACKET_START])\<lparr>incoming := [[]]\<rparr>))
     (Running ((fresh_locals [0] [0])\<lparr>flag_ser_label := True\<rparr>) (scripted [[]]))"
    using pass [of "fresh_locals [0] [0]" "(receiving [PACKET_START])\<lparr>incoming := [[]]\<rparr>"]
    by (simp add: fresh_locals_def scripted_def receiving_def idle_port_def body_idle_start
        Serial_available_def program)
  show "sys_step (Running ((fresh_locals [0] [0])\<lparr>flag_ser_label := True\<rparr>) (scripted [[]]))
     (Running ((fresh_locals [0] [0])\<lparr>flag_ser_label := True\<rparr>) idle_port)"
    using gap [of "scripted [[]]" "[]" "(fresh_locals [0] [0])\<lparr>flag_ser_label := True\<rparr>"]
    by (simp add: scripted_def idle_port_def interrupt)
qed

section \<open>Interrupts on a receive queue of fixed capacity\<close>

text \<open>
  The receive interrupt of the Arduino core stores a byte only when the receive
  buffer has room, and drops it otherwise. The relation \<open>env_step_within\<close> is
  \<open>env_step\<close> with that test, for a queue of capacity \<open>cap\<close>.
\<close>

inductive env_step_within :: "nat \<Rightarrow> outcome \<Rightarrow> outcome \<Rightarrow> bool" for cap :: nat where
  kept: "incoming s = (b # c) # cs \<Longrightarrow> length (rx s) < cap \<Longrightarrow>
         env_step_within cap (Running l s) (Running l (s\<lparr>rx := rx s @ [b], incoming := c # cs\<rparr>))"
| lost: "incoming s = (b # c) # cs \<Longrightarrow> cap \<le> length (rx s) \<Longrightarrow>
         env_step_within cap (Running l s) (Running l (s\<lparr>incoming := c # cs\<rparr>))"
| pause: "incoming s = [] # cs \<Longrightarrow>
          env_step_within cap (Running l s) (Running l (s\<lparr>incoming := cs\<rparr>))"
| drained: "txq s = b # bs \<Longrightarrow>
         env_step_within cap (Running l s) (Running l (s\<lparr>txq := bs, wire := wire s @ [b]\<rparr>))"

inductive sys_step_within :: "nat \<Rightarrow> outcome \<Rightarrow> outcome \<Rightarrow> bool" for cap :: nat where
  program_within: "loop_step c c' \<Longrightarrow> sys_step_within cap c c'"
| interrupt_within: "env_step_within cap c c' \<Longrightarrow> sys_step_within cap c c'"

code_pred env_step_within .

fun room :: "nat \<Rightarrow> outcome \<Rightarrow> bool" where
  "room cap (Running l s) \<longleftrightarrow> length (pending s) \<le> cap"
| "room cap (Returned t l s) \<longleftrightarrow> True"
| "room cap (Failed e) \<longleftrightarrow> True"

lemma body_pending:
  assumes "rx s = b # bs" and "loop_body l s = Running l' s'"
  shows "pending s = b # pending s'"
  using assms(1)
proof (cases rule: body_cases [where l = l])
  case idle_noise
  with assms show ?thesis
    by (auto simp: body_idle_noise pending_def sendsD(3,4) [OF sends_ErrorText])
qed (use assms in \<open>auto simp: body_eqs checked_iffs pending_def\<close>)

lemma loop_room: "loop_step c c' \<Longrightarrow> room cap c \<Longrightarrow> room cap c'"
proof (induction rule: loop_step.induct)
  case (pass l s)
  then obtain b bs where "rx s = b # bs"
    by (cases "rx s") (auto simp: available_pos_iff)
  with pass show ?case
    by (cases "loop_body l s") (auto dest: body_pending)
qed simp_all

lemma env_within_room: "env_step_within cap c c' \<Longrightarrow> room cap c \<Longrightarrow> room cap c'"
  by (induction rule: env_step_within.induct) (simp_all add: pending_def)

lemma env_within_exact: "env_step_within cap c c' \<Longrightarrow> room cap c \<Longrightarrow> env_step c c'"
  by (induction rule: env_step_within.induct)
     (auto simp: pending_def intro: arrival gap departure)

lemma sys_within_exact:
  assumes "sys_step_within cap c c'" and "room cap c"
  shows "sys_step c c'" and "room cap c'"
  using assms
  by (induction rule: sys_step_within.induct)
     (auto intro: program interrupt env_within_exact loop_room env_within_room)

lemma star_within_exact:
  "(sys_step_within cap)\<^sup>*\<^sup>* c c' \<Longrightarrow> room cap c \<Longrightarrow> sys_step\<^sup>*\<^sup>* c c' \<and> room cap c'"
proof (induction rule: rtranclp_induct)
  case (step c' c'')
  with sys_within_exact [of cap c' c''] show ?case
    by (auto intro: rtranclp.rtrancl_into_rtrancl)
qed simp


lemma env_exact_within: "env_step c c' \<Longrightarrow> room cap c \<Longrightarrow> env_step_within cap c c'"
  by (induction rule: env_step.induct) (auto simp: pending_def intro: kept pause drained)

lemma star_exact_within:
  "sys_step\<^sup>*\<^sup>* c c' \<Longrightarrow> room cap c \<Longrightarrow> (sys_step_within cap)\<^sup>*\<^sup>* c c' \<and> room cap c'"
proof (induction rule: rtranclp_induct)
  case (step c' c'')
  then have "sys_step_within cap c' c''"
    by (auto simp: sys_step_iff intro: program_within interrupt_within env_exact_within)
  with step sys_within_exact(2) [of cap c' c''] show ?case
    by (auto intro: rtranclp.rtrancl_into_rtrancl)
qed simp

text \<open>
  A queue of one byte and a delivery of two: when the second byte arrives
  before the loop has read the first, it is dropped, and the loop comes to rest
  with an empty label where the receiver without limit has stored the byte.
\<close>

lemma overrun_run:
  "sys_step_within 1 (Running (fresh_locals [0, 0] [0]) (scripted [[PACKET_START, 0x4C]]))
     (Running (fresh_locals [0, 0] [0]) ((receiving [PACKET_START])\<lparr>incoming := [[0x4C]]\<rparr>))"
  "sys_step_within 1
     (Running (fresh_locals [0, 0] [0]) ((receiving [PACKET_START])\<lparr>incoming := [[0x4C]]\<rparr>))
     (Running (fresh_locals [0, 0] [0]) ((receiving [PACKET_START])\<lparr>incoming := [[]]\<rparr>))"
  "sys_step_within 1
     (Running (fresh_locals [0, 0] [0]) ((receiving [PACKET_START])\<lparr>incoming := [[]]\<rparr>))
     (Running ((fresh_locals [0, 0] [0])\<lparr>flag_ser_label := True\<rparr>) (scripted [[]]))"
  "sys_step_within 1
     (Running ((fresh_locals [0, 0] [0])\<lparr>flag_ser_label := True\<rparr>) (scripted [[]]))
     (Running ((fresh_locals [0, 0] [0])\<lparr>flag_ser_label := True\<rparr>) idle_port)"
proof -
  show "sys_step_within 1 (Running (fresh_locals [0, 0] [0]) (scripted [[PACKET_START, 0x4C]]))
     (Running (fresh_locals [0, 0] [0]) ((receiving [PACKET_START])\<lparr>incoming := [[0x4C]]\<rparr>))"
    using kept [of "scripted [[PACKET_START, 0x4C]]" PACKET_START "[0x4C]" "[]" 1
        "fresh_locals [0, 0] [0]"]
    by (simp add: scripted_def receiving_def idle_port_def interrupt_within)
  show "sys_step_within 1
     (Running (fresh_locals [0, 0] [0]) ((receiving [PACKET_START])\<lparr>incoming := [[0x4C]]\<rparr>))
     (Running (fresh_locals [0, 0] [0]) ((receiving [PACKET_START])\<lparr>incoming := [[]]\<rparr>))"
    using lost [of "(receiving [PACKET_START])\<lparr>incoming := [[0x4C]]\<rparr>" "0x4C" "[]" "[]" 1
        "fresh_locals [0, 0] [0]"]
    by (simp add: receiving_def idle_port_def interrupt_within)
  show "sys_step_within 1
     (Running (fresh_locals [0, 0] [0]) ((receiving [PACKET_START])\<lparr>incoming := [[]]\<rparr>))
     (Running ((fresh_locals [0, 0] [0])\<lparr>flag_ser_label := True\<rparr>) (scripted [[]]))"
    using pass [of "fresh_locals [0, 0] [0]" "(receiving [PACKET_START])\<lparr>incoming := [[]]\<rparr>"]
    by (simp add: fresh_locals_def scripted_def receiving_def idle_port_def body_idle_start
        Serial_available_def program_within)
  show "sys_step_within 1
     (Running ((fresh_locals [0, 0] [0])\<lparr>flag_ser_label := True\<rparr>) (scripted [[]]))
     (Running ((fresh_locals [0, 0] [0])\<lparr>flag_ser_label := True\<rparr>) idle_port)"
    using pause [of "scripted [[]]" "[]" 1 "(fresh_locals [0, 0] [0])\<lparr>flag_ser_label := True\<rparr>"]
    by (simp add: scripted_def idle_port_def interrupt_within)
qed

lemma overrun_unbounded:
  "parse_loop (fresh_locals [0, 0] [0]) (scripted [[PACKET_START, 0x4C]]) =
     Running ((fresh_locals [0, 0] [0])\<lparr>flag_ser_label := True, length_label := 1,
                buffer_label := [0x4C, 0]\<rparr>) idle_port"
  by code_simp


section \<open>Where the system rests\<close>

lemma star_rest:
  assumes "sys_step\<^sup>*\<^sup>* (Running l s) c" and "rests c"
  shows "agree c (parse_loop l s)"
proof -
  from assms(1) have "agree (settle (Running l s)) (settle c)"
    by (rule star_settle)
  with assms(2) have "agree (parse_loop l s) c"
    by (simp add: settle_rests)
  then show ?thesis
    by (rule agree_sym)
qed

lemma loop_star_sys: "loop_step\<^sup>*\<^sup>* c c' \<Longrightarrow> sys_step\<^sup>*\<^sup>* c c'"
  by (induction rule: rtranclp_induct) (auto intro: program rtranclp.rtrancl_into_rtrancl)

section \<open>Properties\<close>

text \<open>
  C11: Interrupts do not change what the receiver does. In any interleaving of
  the steps of the loop with arrivals of bytes and departures of queued bytes,
  a configuration in which the loop has come to rest agrees with the value of
  \<open>parse_loop\<close> at the start: the same kind of result, the same returned
  marker or fault, identical locals and buffers, and the same streams.
\<close>

theorem interleaving_rest:
  assumes "sys_step\<^sup>*\<^sup>* (Running l s) c" and "rests c"
  shows "agree c (parse_loop l s)"
  using assms by (rule star_rest)

theorem interleaving_rest_witness:
  "agree (Running ((fresh_locals [0] [0])\<lparr>flag_ser_label := True\<rparr>) idle_port)
     (parse_loop (fresh_locals [0] [0]) (scripted [[PACKET_START]]))"
proof -
  have "sys_step\<^sup>*\<^sup>* (Running (fresh_locals [0] [0]) (scripted [[PACKET_START]]))
      (Running ((fresh_locals [0] [0])\<lparr>flag_ser_label := True\<rparr>) idle_port)"
    using sample_run by (meson rtranclp.rtrancl_into_rtrancl rtranclp.rtrancl_refl)
  from interleaving_rest [OF this] show ?thesis
    by (simp add: fresh_locals_def idle_port_def)
qed

text \<open>
  An example of a receive queue that is too small, where the result depends on
  the moments at which the bytes arrive. With a queue of one byte and the
  delivery \<open><L\<close>, there is an interleaving in which the loop comes to rest and
  does not agree with \<open>parse_loop\<close>: the byte \<open>L\<close> arrived while the start marker
  was still queued, and was dropped.
\<close>

lemma overrun_schedule:
  "\<exists>c. (sys_step_within 1)\<^sup>*\<^sup>*
         (Running (fresh_locals [0, 0] [0]) (scripted [[PACKET_START, 0x4C]])) c
       \<and> rests c
       \<and> \<not> agree c (parse_loop (fresh_locals [0, 0] [0]) (scripted [[PACKET_START, 0x4C]]))"
proof (intro exI conjI)
  show "(sys_step_within 1)\<^sup>*\<^sup>*
      (Running (fresh_locals [0, 0] [0]) (scripted [[PACKET_START, 0x4C]]))
      (Running ((fresh_locals [0, 0] [0])\<lparr>flag_ser_label := True\<rparr>) idle_port)"
    using overrun_run by (meson rtranclp.rtrancl_into_rtrancl rtranclp.rtrancl_refl)
  show "rests (Running ((fresh_locals [0, 0] [0])\<lparr>flag_ser_label := True\<rparr>) idle_port)"
    by (simp add: fresh_locals_def idle_port_def)
  show "\<not> agree (Running ((fresh_locals [0, 0] [0])\<lparr>flag_ser_label := True\<rparr>) idle_port)
      (parse_loop (fresh_locals [0, 0] [0]) (scripted [[PACKET_START, 0x4C]]))"
    unfolding overrun_unbounded by (simp add: fresh_locals_def)
qed

end
