(* ===== verification/Bounded_Port.thy ===== *)
theory Bounded_Port
  imports Delivery Decoder_Spec
begin

text \<open>
  The receive queue of the Arduino core is a buffer of fixed size: a byte that
  arrives while the buffer is full is lost. The port of theory \<open>Serial_Port\<close>
  has no such limit. This theory adds the limit: \<open>arrive\<close> puts a delivery into
  a queue of a given capacity, \<open>tick_within\<close> is the waiting period with that
  queue, and \<open>parse_loop_within\<close> is the loop of
  \<open>SerialReceiveAndParsePacket\<close> on it. The lemmas show that nothing is lost
  while every delivery is within the capacity, and the main result is what the
  receiver has read of a frame that is longer than the queue.
\<close>

section \<open>A receive queue of fixed capacity\<close>

definition RX_BUFFER :: nat where
  "RX_BUFFER = 64"

definition arrive :: "nat \<Rightarrow> byte list \<Rightarrow> byte list \<Rightarrow> byte list" where
  "arrive cap q c = q @ take (cap - length q) c"

definition tick_within :: "nat \<Rightarrow> serial \<Rightarrow> serial" where
  "tick_within cap s =
     (case incoming s of
        [] \<Rightarrow> s\<lparr>wire := wire s @ txq s, txq := []\<rparr>
      | c # cs \<Rightarrow> s\<lparr>rx := arrive cap (rx s) c, incoming := cs,
                     wire := wire s @ txq s, txq := []\<rparr>)"

definition fits :: "nat \<Rightarrow> serial \<Rightarrow> bool" where
  "fits cap s \<longleftrightarrow> list_all (\<lambda>c. length c \<le> cap) (incoming s)"

lemma arrive_fits: "length q + length c \<le> cap \<Longrightarrow> arrive cap q c = q @ c"
  by (simp add: arrive_def)

lemma length_arrive: "length q \<le> cap \<Longrightarrow> length (arrive cap q c) \<le> cap"
  by (simp add: arrive_def)

lemma arrive_lost:
  "length q \<le> cap \<Longrightarrow> cap < length q + length c \<Longrightarrow> length (arrive cap q c) = cap"
  by (simp add: arrive_def)

lemma tick_within_fits:
  "rx s = [] \<Longrightarrow> fits cap s \<Longrightarrow> tick_within cap s = tick s"
  by (cases "incoming s") (simp_all add: tick_within_def tick_def fits_def arrive_def)

lemma fits_tick: "fits cap s \<Longrightarrow> fits cap (tick s)"
  by (cases "incoming s") (simp_all add: tick_def fits_def)

lemma cost_tick_within: "incoming s \<noteq> [] \<Longrightarrow> cost (tick_within cap s) < cost s"
  by (cases "incoming s") (simp_all add: cost_def tick_within_def arrive_def)

section \<open>The receiver on the bounded queue\<close>

function parse_loop_within :: "nat \<Rightarrow> locals \<Rightarrow> serial \<Rightarrow> outcome" where
  "parse_loop_within cap l s =
     (if flag_ser_end l then Failed NoReturnValue
      else if 0 < Serial_available s then carry_on (loop_body l s) (parse_loop_within cap)
      else if incoming s = [] then Running l s
      else parse_loop_within cap l (tick_within cap s))"
  by pat_completeness auto
termination
  by (relation "measure (\<lambda>(cap, l, s). cost s)") (auto simp: body_consumes cost_tick_within)

definition SerialReceiveAndParsePacket_within ::
  "nat \<Rightarrow> byte list \<Rightarrow> byte list \<Rightarrow> serial \<Rightarrow> outcome" where
  "SerialReceiveAndParsePacket_within cap buffer_label0 buffer_data0 s =
     parse_loop_within cap (fresh_locals buffer_label0 buffer_data0) s"

declare parse_loop_within.simps [simp del]

lemma body_fits:
  assumes "rx s \<noteq> []" and "loop_body l s = Running l' s'" and "fits cap s"
  shows "fits cap s'"
proof -
  from assms(1) obtain b bs where "rx s = b # bs"
    by (cases "rx s") auto
  then have "incoming s' = incoming s"
    using assms(2) by (rule body_keeps_script)
  with assms(3) show ?thesis
    by (simp add: fits_def)
qed

lemma within_eqs:
  "flag_ser_end l \<Longrightarrow> parse_loop_within cap l s = Failed NoReturnValue"
  "\<not> flag_ser_end l \<Longrightarrow> rx s \<noteq> [] \<Longrightarrow>
   parse_loop_within cap l s = carry_on (loop_body l s) (parse_loop_within cap)"
  "\<not> flag_ser_end l \<Longrightarrow> rx s = [] \<Longrightarrow> incoming s \<noteq> [] \<Longrightarrow>
   parse_loop_within cap l s = parse_loop_within cap l (tick_within cap s)"
  "\<not> flag_ser_end l \<Longrightarrow> rx s = [] \<Longrightarrow> incoming s = [] \<Longrightarrow> parse_loop_within cap l s = Running l s"
  by (subst parse_loop_within.simps, simp add: available_pos_iff)+

lemma parse_loop_within_fits:
  assumes "fits cap s"
  shows "parse_loop_within cap l s = parse_loop l s"
  using assms
proof (induction l s rule: loop_induct)
  case (ended l s)
  then show ?case
    by (simp add: within_eqs loop_end)
next
  case (starved l s)
  then show ?case
    by (simp add: within_eqs loop_starved)
next
  case (wait l s)
  then have "parse_loop_within cap l (tick_within cap s) = parse_loop l (tick s)"
    by (simp add: tick_within_fits fits_tick)
  with wait show ?case
    by (simp add: within_eqs loop_wait)
next
  case (read l s)
  have "carry_on (loop_body l s) (parse_loop_within cap) = carry_on (loop_body l s) parse_loop"
  proof (cases "loop_body l s")
    case (Running l' s')
    with read show ?thesis
      by (simp add: body_fits)
  qed simp_all
  with read show ?case
    by (simp add: within_eqs loop_read)
qed


section \<open>A delivery that does not fit\<close>

lemma fits_last [simp]: "incoming s = [] \<Longrightarrow> fits cap s"
  by (simp add: fits_def)

lemma tick_within_single:
  "tick_within cap (scripted [c]) = receiving (take cap c)"
  by (simp add: tick_within_def scripted_def receiving_def idle_port_def arrive_def)

lemma within_single:
  "SerialReceiveAndParsePacket_within cap bl bd (scripted [c])
   = SerialReceiveAndParsePacket bl bd (receiving (take cap c))"
proof -
  have "parse_loop_within cap (fresh_locals bl bd) (scripted [c])
      = parse_loop_within cap (fresh_locals bl bd) (tick_within cap (scripted [c]))"
    by (subst parse_loop_within.simps)
      (simp add: fresh_locals_def scripted_def idle_port_def Serial_available_def)
  also have "\<dots> = parse_loop (fresh_locals bl bd) (receiving (take cap c))"
    by (simp add: tick_within_single parse_loop_within_fits receiving_def idle_port_def)
  finally show ?thesis
    by (simp add: SerialReceiveAndParsePacket_within_def SerialReceiveAndParsePacket_def)
qed

lemma plain_payload_take: "plain_payload pay \<Longrightarrow> plain_payload (take k pay)"
  by (auto simp: plain_payload_iff dest: in_set_takeD)

lemma take_frame:
  assumes "length lab + 2 \<le> cap"
  shows "take cap (frame lab t pay)
    = PACKET_START # lab @ t # take (cap - length lab - 2) (pay @ [PACKET_END])"
proof -
  from assms obtain m where "cap = length lab + 2 + m"
    using le_Suc_ex by blast
  then show ?thesis
    by (simp add: frame_def)
qed

section \<open>Properties\<close>

text \<open>
  C30: A frame longer than the receive queue is never delivered. When a
  well-formed frame that fits the buffers of the caller arrives in one
  delivery and is longer than the capacity of the queue, its end is lost: the
  receiver has read the label, the marker and the part of the payload that
  fitted, and keeps waiting for the end marker.
\<close>

theorem long_delivery_cut:
  assumes "int (length bl) \<le> INT_MAX" and "int (length bd) \<le> INT_MAX"
    and "unmarked lab" and "label_mark t" and "plain_payload pay"
    and "length lab < length bl" and "length pay < length bd"
    and "length lab + 2 \<le> cap" and "cap < length (frame lab t pay)"
  shows "\<exists>l' s'. SerialReceiveAndParsePacket_within cap bl bd (scripted [frame lab t pay])
      = Running l' s'
    \<and> tracks l' (CollectingPayload lab t (take (cap - length lab - 2) pay))
    \<and> pending s' = []"
proof -
  let ?k = "cap - length lab - 2"
  from assms(9) have "?k \<le> length pay"
    by simp
  then have "take cap (frame lab t pay) = [] @ PACKET_START # lab @ t # take ?k pay"
    using take_frame [OF assms(8), of t pay] by simp
  then have input: "pending (receiving (take cap (frame lab t pay)))
      = [] @ PACKET_START # lab @ t # take ?k pay"
    by simp
  have quiet: "PACKET_START \<notin> set []"
    by simp
  from assms(5) have plain: "plain_payload (take ?k pay)"
    by (rule plain_payload_take)
  from assms(7) have room: "length (take ?k pay) \<le> length bd"
    by simp
  from receive_matches [OF assms(1,2), of "receiving (take cap (frame lab t pay))"]
    run_incomplete [OF quiet assms(3,4) plain assms(6) room] input
  show ?thesis
    by (auto simp: within_single dest!: matches_Awaiting)
qed

theorem long_delivery_cut_witness:
  "\<exists>l' s'. SerialReceiveAndParsePacket_within 6 (replicate 100 0) (replicate 100 0)
       (scripted [frame (bytes_of ''Ts'') PACKET_INT [0, 0, 0, 5]]) = Running l' s'
     \<and> tracks l' (CollectingPayload (bytes_of ''Ts'') PACKET_INT (take (6 - length (bytes_of ''Ts'') - 2) [0, 0, 0, 5]))
     \<and> pending s' = []"
  using long_delivery_cut [of "replicate 100 0" "replicate 100 0" "bytes_of ''Ts''" PACKET_INT
      "[0, 0, 0, 5]" 6]
  by (simp add: ground_simps)

end
