(* ===== verification/Packet_Stream.thy ===== *)
theory Packet_Stream
  imports Decoder_Spec
begin

text \<open>
  The receiver called again and again, as the sketch does from its main loop
  with the same two arrays. \<open>receive_all\<close> calls \<open>SerialReceiveAndParsePacket\<close>
  until a call does not return, and collects what each call that returned
  left for the caller: the marker and the two arrays. On the side of the
  specification \<open>run_all\<close> iterates the machine of theory \<open>Decoder_Spec\<close> over
  the stream. The lemmas show that a call that returns has read at least one
  byte, so that both iterations end, and the main result that the packets of
  \<open>receive_all\<close> are the packets of \<open>run_all\<close>, in order, for every input.
\<close>

section \<open>A call that returns has read\<close>

lemma body_Returned_port:
  assumes "rx s = b # bs" and "loop_body l s = Returned t l' s'"
  shows "s' = s\<lparr>rx := bs\<rparr>"
  using assms(1)
proof (cases rule: body_cases [where l = l])
  case data_end
  with assms show ?thesis
    by (auto simp: body_data_end checked_iffs split: option.splits)
qed (use assms in \<open>auto simp: body_eqs checked_iffs\<close>)

lemma loop_Returned_cost:
  assumes "parse_loop l s = Returned t l' s'"
  shows "cost s' < cost s"
proof -
  have "\<forall>t l' s'. parse_loop l s = Returned t l' s' \<longrightarrow> cost s' < cost s"
  proof (rule parse_loop_result_induct
      [where P = "\<lambda>l s r. \<forall>t l' s'. r = Returned t l' s' \<longrightarrow> cost s' < cost s"])
    fix l s r
    assume "rx s = []" and "incoming s \<noteq> []"
      and "\<forall>t l' s'. r = Returned t l' s' \<longrightarrow> cost s' < cost (tick s)"
    with cost_tick [of s] show "\<forall>t l' s'. r = Returned t l' s' \<longrightarrow> cost s' < cost s"
      by (auto intro: less_trans)
  next
    fix l s l1 s1 r
    assume "rx s \<noteq> []" and "loop_body l s = Running l1 s1"
      and "\<forall>t l' s'. r = Returned t l' s' \<longrightarrow> cost s' < cost s1"
    with body_consumes [of s l l1 s1] show "\<forall>t l' s'. r = Returned t l' s' \<longrightarrow> cost s' < cost s"
      by (auto simp: available_pos_iff intro: less_trans)
  next
    fix l s t1 l1 s1
    assume "rx s \<noteq> []" and body: "loop_body l s = Returned t1 l1 s1"
    then obtain b bs where "rx s = b # bs"
      by (cases "rx s") auto
    with body_Returned_port [OF this body]
    show "\<forall>t l' s'. Returned t1 l1 s1 = Returned t l' s' \<longrightarrow> cost s' < cost s"
      by (simp add: cost_def)
  qed simp_all
  with assms show ?thesis
    by blast
qed

section \<open>Successive calls\<close>

type_synonym reception = "byte \<times> byte list \<times> byte list"

definition and_then ::
  "outcome \<Rightarrow> (locals \<Rightarrow> serial \<Rightarrow> reception list \<times> outcome) \<Rightarrow> reception list \<times> outcome" where
  "and_then r k =
     (case r of
        Returned t l s \<Rightarrow> ((t, buffer_label l, buffer_data l) # fst (k l s), snd (k l s))
      | _ \<Rightarrow> ([], r))"

lemma and_then_cong [fundef_cong]:
  "r = r' \<Longrightarrow> (\<And>t l s. r' = Returned t l s \<Longrightarrow> k l s = k' l s) \<Longrightarrow>
   and_then r k = and_then r' k'"
  by (auto simp: and_then_def split: outcome.splits)

function receive_all :: "byte list \<Rightarrow> byte list \<Rightarrow> serial \<Rightarrow> reception list \<times> outcome" where
  "receive_all bl bd s =
     and_then (SerialReceiveAndParsePacket bl bd s)
       (\<lambda>l' s'. receive_all (buffer_label l') (buffer_data l') s')"
  by pat_completeness auto
termination
  by (relation "measure (\<lambda>(bl, bd, s). cost s)")
     (auto simp: SerialReceiveAndParsePacket_def loop_Returned_cost)

declare receive_all.simps [simp del]

section \<open>The machine iterated over the stream\<close>

type_synonym delivery = "byte list \<times> byte list \<times> byte \<times> byte list"

definition and_next ::
  "verdict \<Rightarrow> (byte list \<Rightarrow> delivery list \<times> verdict) \<Rightarrow> delivery list \<times> verdict" where
  "and_next v k =
     (case v of
        Delivered ns lab t pay rest \<Rightarrow> ((ns, lab, t, pay) # fst (k rest), snd (k rest))
      | _ \<Rightarrow> ([], v))"

lemma and_next_cong [fundef_cong]:
  "v = v' \<Longrightarrow> (\<And>ns lab t pay rest. v' = Delivered ns lab t pay rest \<Longrightarrow> k rest = k' rest) \<Longrightarrow>
   and_next v k = and_next v' k'"
  by (auto simp: and_next_def split: verdict.splits)

lemma run_Delivered_shorter:
  "run cl cd d bs = Delivered ns lab t pay rest \<Longrightarrow> length rest < length bs"
proof (induction bs arbitrary: d ns)
  case Nil
  then show ?case by simp
next
  case (Cons b bs)
  show ?case
  proof (cases "feed cl cd d b")
    case (Inl e)
    with Cons.prems show ?thesis by simp
  next
    case (Inr r)
    obtain d' ev where r: "r = (d', ev)" by (cases r)
    show ?thesis
    proof (cases ev)
      case Silent
      with Inr r Cons.prems Cons.IH [of d' ns] show ?thesis by simp
    next
      case (Notice x)
      with Inr r Cons.prems obtain ms where "run cl cd d' bs = Delivered ms lab t pay rest"
        by (cases "run cl cd d' bs") auto
      with Cons.IH [of d' ms] show ?thesis by simp
    next
      case (Packet lab' t' pay')
      with Inr r Cons.prems show ?thesis by simp
    qed
  qed
qed

function run_all :: "nat \<Rightarrow> nat \<Rightarrow> byte list \<Rightarrow> delivery list \<times> verdict" where
  "run_all cl cd bs = and_next (run cl cd Idle bs) (run_all cl cd)"
  by pat_completeness auto
termination
  by (relation "measure (\<lambda>(cl, cd, bs). length bs)") (auto simp: run_Delivered_shorter)

declare run_all.simps [simp del]

section \<open>Coupling the calls with the iterated machine\<close>

fun received :: "reception \<Rightarrow> delivery \<Rightarrow> bool" where
  "received (t, bl, bd) (ns, lab, t', pay) \<longleftrightarrow> t = t' \<and> holds bl lab \<and> holds bd pay"

definition noise_of :: "delivery list \<Rightarrow> byte list" where
  "noise_of ds = concat (map fst ds)"

definition follows ::
  "byte list \<Rightarrow> byte list \<Rightarrow> serial \<Rightarrow> reception list \<times> outcome \<Rightarrow> delivery list \<times> verdict \<Rightarrow> bool"
  where
  "follows bl bd s R D \<longleftrightarrow>
     list_all2 received (fst R) (fst D)
     \<and> matches (fresh_locals bl bd) s (snd R) (foldr noisy (noise_of (fst D)) (snd D))"

definition wire_of :: "delivery \<Rightarrow> byte list" where
  "wire_of d = (case d of (ns, lab, t, pay) \<Rightarrow> ns @ frame lab t pay)"

definition well_framed :: "nat \<Rightarrow> nat \<Rightarrow> delivery \<Rightarrow> bool" where
  "well_framed cl cd d =
     (case d of (ns, lab, t, pay) \<Rightarrow>
        PACKET_START \<notin> set ns \<and> unmarked lab \<and> label_mark t \<and> plain_payload pay
        \<and> length lab < cl \<and> length pay < cd)"

lemma and_then_simps [simp]:
  "and_then (Returned t l s) k = ((t, buffer_label l, buffer_data l) # fst (k l s), snd (k l s))"
  "and_then (Running l s) k = ([], Running l s)"
  "and_then (Failed e) k = ([], Failed e)"
  by (simp_all add: and_then_def)

lemma and_next_simps [simp]:
  "and_next (Delivered ns lab t pay rest) k = ((ns, lab, t, pay) # fst (k rest), snd (k rest))"
  "and_next (Awaiting d ns) k = ([], Awaiting d ns)"
  "and_next (Overflowed e) k = ([], Overflowed e)"
  by (simp_all add: and_next_def)

lemma wire_of_simp [simp]: "wire_of (ns, lab, t, pay) = ns @ frame lab t pay"
  by (simp add: wire_of_def)

lemma noise_of_simps [simp]:
  "noise_of [] = []"
  "noise_of ((ns, lab, t, pay) # ds) = ns @ noise_of ds"
  by (simp_all add: noise_of_def)

lemma notices_append [simp]: "notices (xs @ ys) = notices xs @ notices ys"
  by (simp add: notices_def)

lemma matches_after:
  assumes "matches l1 s1 out v" and "same_buffers l l1"
    and "emitted s1 = emitted s @ notices ns" and "elapsed s1 = elapsed s"
  shows "matches l s out (foldr noisy ns v)"
  using assms by (cases out; cases v) (auto simp: same_buffers_def)

section \<open>The calls follow the machine\<close>

lemma follows_next:
  assumes call: "SerialReceiveAndParsePacket bl bd s = Returned t l' s'"
    and run: "run (length bl) (length bd) Idle (pending s) = Delivered ns lab t pay (pending s')"
    and held: "holds (buffer_label l') lab" "holds (buffer_data l') pay"
    and len: "length (buffer_label l') = length bl" "length (buffer_data l') = length bd"
    and out: "emitted s' = emitted s @ notices ns" "elapsed s' = elapsed s"
    and rest: "follows (buffer_label l') (buffer_data l') s'
        (receive_all (buffer_label l') (buffer_data l') s')
        (run_all (length bl) (length bd) (pending s'))"
  shows "follows bl bd s (receive_all bl bd s) (run_all (length bl) (length bd) (pending s))"
proof -
  let ?R = "receive_all (buffer_label l') (buffer_data l') s'"
  let ?D = "run_all (length bl) (length bd) (pending s')"
  from rest have "matches (fresh_locals (buffer_label l') (buffer_data l')) s' (snd ?R)
      (foldr noisy (noise_of (fst ?D)) (snd ?D))"
    by (simp add: follows_def)
  then have "matches (fresh_locals bl bd) s (snd ?R) (foldr noisy ns (foldr noisy (noise_of (fst ?D)) (snd ?D)))"
    by (rule matches_after [OF _ _ out]) (simp add: same_buffers_def len)
  with rest held call run show ?thesis
    by (simp add: follows_def receive_all.simps [of bl bd s] run_all.simps [of _ _ "pending s"])
qed

lemma receive_all_follows:
  assumes "int (length bl) \<le> INT_MAX" and "int (length bd) \<le> INT_MAX"
  shows "follows bl bd s (receive_all bl bd s) (run_all (length bl) (length bd) (pending s))"
  using assms
proof (induction bl bd s rule: receive_all.induct)
  case (1 bl bd s)
  note m = receive_matches [OF "1.prems", of s]
  show ?case
  proof (cases "run (length bl) (length bd) Idle (pending s)")
    case (Delivered ns lab t pay rest)
    with m obtain l' s' where call: "SerialReceiveAndParsePacket bl bd s = Returned t l' s'"
      and held: "holds (buffer_label l') lab" "holds (buffer_data l') pay"
      and same: "same_buffers (fresh_locals bl bd) l'" and rest: "pending s' = rest"
      and out: "emitted s' = emitted s @ notices ns" "elapsed s' = elapsed s"
      by (auto dest: matches_Delivered)
    from same have len: "length (buffer_label l') = length bl" "length (buffer_data l') = length bd"
      by (simp_all add: same_buffers_def)
    with "1.prems" "1.IH" [OF call] have "follows (buffer_label l') (buffer_data l') s'
        (receive_all (buffer_label l') (buffer_data l') s')
        (run_all (length bl) (length bd) (pending s'))"
      by simp
    from call Delivered [folded rest] held len out this show ?thesis
      by (rule follows_next)
  qed (use m in \<open>auto dest: matches_Awaiting matches_Overflowed simp: follows_def
      receive_all.simps [of bl bd s] run_all.simps [of _ _ "pending s"]\<close>)
qed

lemma run_all_frames:
  assumes "list_all (well_framed cl cd) ds" and "PACKET_START \<notin> set tail"
  shows "run_all cl cd (concat (map wire_of ds) @ tail) = (ds, Awaiting Idle tail)"
  using assms(1)
proof (induction ds)
  case Nil
  from assms(2) have "run cl cd Idle tail = Awaiting Idle tail"
    using run_noise [of tail cl cd "[]"] by simp
  then show ?case
    by (simp add: run_all.simps [of _ _ tail])
next
  case (Cons d ds)
  obtain ns lab t pay where d: "d = (ns, lab, t, pay)"
    by (cases d)
  let ?rest = "concat (map wire_of ds) @ tail"
  from Cons.prems d have "run cl cd Idle (ns @ frame lab t pay @ ?rest) = Delivered ns lab t pay ?rest"
    by (intro run_noisy_frame) (simp_all add: well_framed_def)
  then have "run_all cl cd (ns @ frame lab t pay @ ?rest)
      = ((ns, lab, t, pay) # fst (run_all cl cd ?rest), snd (run_all cl cd ?rest))"
    by (simp add: run_all.simps [of _ _ "ns @ frame lab t pay @ ?rest"])
  with Cons d show ?case
    by simp
qed

section \<open>A stream with noise\<close>

text \<open>
  The bytes \<open>X\<close>, \<open>Y\<close> and then the packet \<open><Ts|\<close> with the value 5, in two
  deliveries: the machine reports the two bytes of noise with the one packet.
\<close>

lemma sample_run_all:
  "run_all (length [0, 0, 0 :: byte]) (length [0, 0, 0, 0, 0 :: byte])
       (pending (scripted [[0x58, 0x59, 0x3C, 0x54], [0x73, 0x7C, 0, 0, 0, 5, 0x3E]]))
     = ([([0x58, 0x59], [0x54, 0x73], PACKET_INT, [0, 0, 0, 5])], Awaiting Idle [])"
  by code_simp

section \<open>Properties\<close>

text \<open>
  C13: Called again and again, the receiver is the machine of the specification
  iterated over the stream, for every input. The calls that return hand the
  caller, in order, the type, label and payload of the packets the machine
  delivers; the call that does not return waits in the state in which the
  machine waits, or fails with the fault with which the machine overflows; and
  the bytes sent back are the error notices for all the noise, in order.
\<close>

theorem receive_all_refines:
  assumes "int (length bl) \<le> INT_MAX" and "int (length bd) \<le> INT_MAX"
  shows "list_all2 received (fst (receive_all bl bd s))
           (fst (run_all (length bl) (length bd) (pending s)))
     \<and> matches (fresh_locals bl bd) s (snd (receive_all bl bd s))
         (foldr noisy (noise_of (fst (run_all (length bl) (length bd) (pending s))))
            (snd (run_all (length bl) (length bd) (pending s))))"
  using receive_all_follows [OF assms, of s] by (simp add: follows_def)

theorem receive_all_refines_witness:
  "list_all2 received
     (fst (receive_all [0, 0, 0] [0, 0, 0, 0, 0]
        (scripted [[0x58, 0x59, 0x3C, 0x54], [0x73, 0x7C, 0, 0, 0, 5, 0x3E]])))
     [([0x58, 0x59], [0x54, 0x73], PACKET_INT, [0, 0, 0, 5])]
   \<and> matches (fresh_locals [0, 0, 0] [0, 0, 0, 0, 0])
       (scripted [[0x58, 0x59, 0x3C, 0x54], [0x73, 0x7C, 0, 0, 0, 5, 0x3E]])
       (snd (receive_all [0, 0, 0] [0, 0, 0, 0, 0]
          (scripted [[0x58, 0x59, 0x3C, 0x54], [0x73, 0x7C, 0, 0, 0, 5, 0x3E]])))
       (Awaiting Idle [0x58, 0x59])"
  using receive_all_refines [of "[0, 0, 0]" "[0, 0, 0, 0, 0]"
      "scripted [[0x58, 0x59, 0x3C, 0x54], [0x73, 0x7C, 0, 0, 0, 5, 0x3E]]",
      unfolded sample_run_all]
  by (simp add: INT_MAX_def)

text \<open>
  Well-formed streams. A stream of packets is received whole and in order. When the input is a
  sequence of frames, each within the capacity of the arrays and each after
  noise without a start marker, followed by such noise, the successive calls
  return one packet for each frame, in order, the last call waits outside a
  packet with all input read, and one error notice has been sent for each
  byte of noise, in order.
\<close>

theorem receive_frames:
  assumes "int (length bl) \<le> INT_MAX" and "int (length bd) \<le> INT_MAX"
    and "list_all (well_framed (length bl) (length bd)) ds" and "PACKET_START \<notin> set tail"
    and "pending s = concat (map wire_of ds) @ tail"
  shows "\<exists>ps l' s'. receive_all bl bd s = (ps, Running l' s')
    \<and> list_all2 received ps ds \<and> tracks l' Idle \<and> pending s' = []
    \<and> emitted s' = emitted s @ notices (noise_of ds @ tail)"
proof -
  from assms(3-5) have "run_all (length bl) (length bd) (pending s) = (ds, Awaiting Idle tail)"
    by (simp add: run_all_frames)
  with receive_all_follows [OF assms(1,2), of s]
  have "list_all2 received (fst (receive_all bl bd s)) ds"
    and "matches (fresh_locals bl bd) s (snd (receive_all bl bd s)) (Awaiting Idle (noise_of ds @ tail))"
    by (simp_all add: follows_def)
  then show ?thesis
    by (cases "receive_all bl bd s") (auto dest: matches_Awaiting)
qed

theorem receive_frames_witness:
  "\<exists>ps l' s'. receive_all [0, 0, 0] [0, 0, 0, 0, 0]
       (receiving ([0x58, 0x59] @ frame [0x54, 0x73] PACKET_INT [0, 0, 0, 5])) = (ps, Running l' s')
    \<and> list_all2 received ps [([0x58, 0x59], [0x54, 0x73], PACKET_INT, [0, 0, 0, 5])]
    \<and> tracks l' Idle \<and> pending s' = []
    \<and> emitted s' = notices [0x58, 0x59]"
  using receive_frames [of "[0, 0, 0]" "[0, 0, 0, 0, 0]"
      "[([0x58, 0x59], [0x54, 0x73], PACKET_INT, [0, 0, 0, 5])]" "[]"
      "receiving ([0x58, 0x59] @ frame [0x54, 0x73] PACKET_INT [0, 0, 0, 5])"]
  by (simp add: well_framed_def unmarked_def plain_payload_def ground_simps)

end
