(* ===== verification/Session.thy ===== *)
theory Session
  imports Packet_Encoder Packet_Stream
begin

text \<open>
  Both directions of the protocol over whole sessions. The six senders of the
  source are collected in the datatype \<open>message\<close>, one constructor for each
  with its arguments; \<open>send\<close> calls the sender, \<open>packet_of\<close> gives label, marker
  and payload of the packet it puts on the wire. The lemmas show that a
  sequence of messages goes out as the sequence of their frames, and the main
  result that the receiver, called again and again on what the senders have
  emitted, returns the packets of all messages in order.
\<close>

section \<open>The senders as one interface\<close>

datatype message =
    SendInt "byte list" ulong
  | SendIntPair "byte list" ulong ulong
  | SendChar "byte list" byte
  | SendCharPair "byte list" byte byte
  | SendErrorText "byte list"
  | SendErrorNumAsText long

fun send :: "message \<Rightarrow> serial \<Rightarrow> serial" where
  "send (SendInt text ts) = SerialSendInt text ts"
| "send (SendIntPair text int1 int2) = SerialSendIntPair text int1 int2"
| "send (SendChar text data) = SerialSendChar text data"
| "send (SendCharPair text char1 char2) = SerialSendCharPair text char1 char2"
| "send (SendErrorText text) = SerialSendErrorText text"
| "send (SendErrorNumAsText num_data) = SerialSendErrorNumAsText num_data"

fun packet_of :: "message \<Rightarrow> byte list \<times> byte \<times> byte list" where
  "packet_of (SendInt text ts) = (cstr text, PACKET_INT, Encode32 ts)"
| "packet_of (SendIntPair text int1 int2) = (cstr text, PACKET_INT2, Encode32 int1 @ Encode32 int2)"
| "packet_of (SendChar text data) = (cstr text, PACKET_CHAR, [data])"
| "packet_of (SendCharPair text char1 char2) = (cstr text, PACKET_CHAR, [char1, char2])"
| "packet_of (SendErrorText text) = (bytes_of ''Err'', PACKET_CHAR, cstr text)"
| "packet_of (SendErrorNumAsText num_data) = (bytes_of ''Err'', PACKET_CHAR, [ucast num_data])"

definition frame_of :: "message \<Rightarrow> byte list" where
  "frame_of m = (case packet_of m of (lab, t, pay) \<Rightarrow> frame lab t pay)"

definition decodable :: "nat \<Rightarrow> nat \<Rightarrow> message \<Rightarrow> bool" where
  "decodable cl cd m = well_framed cl cd ([], packet_of m)"

section \<open>A sequence of messages on the wire\<close>

lemma sends_message: "sends (send m) (frame_of m) s"
  by (cases m) (simp_all only: send.simps packet_of.simps frame_of_def prod.case sends_intros)

lemma emitted_fold: "emitted (fold send ms s) = emitted s @ concat (map frame_of ms)"
  by (induction ms arbitrary: s) (simp_all add: sendsD(6) [OF sends_message])

lemma pending_fold: "pending (fold send ms s) = pending s"
  by (induction ms arbitrary: s) (simp_all add: sendsD(7) [OF sends_message])

lemma wire_of_message: "wire_of ([], packet_of m) = frame_of m"
  by (cases "packet_of m") (simp add: frame_of_def)

lemma decodable_iff:
  "decodable cl cd m \<longleftrightarrow>
     (case packet_of m of (lab, t, pay) \<Rightarrow>
        unmarked lab \<and> label_mark t \<and> plain_payload pay \<and> length lab < cl \<and> length pay < cd)"
  by (cases "packet_of m") (simp add: decodable_def well_framed_def)

lemma IntPair_not_decodable: "\<not> decodable cl cd (SendIntPair text int1 int2)"
  by (simp add: decodable_def well_framed_def label_mark_def wire_defs)

section \<open>Properties\<close>

text \<open>
  C14: Round trip of a session. When the input of the receiver is what the
  senders of the source emit for a sequence of messages, each with a label
  without type marker, a payload without end marker and both within the
  arrays, the successive calls of \<open>SerialReceiveAndParsePacket\<close> return one
  packet for each message, in order, with the marker, label and payload of
  the message; all input is read and nothing is sent back. A message of
  \<open>SerialSendIntPair\<close> never satisfies the condition.
\<close>

theorem roundtrip_session:
  assumes "int (length bl) \<le> INT_MAX" and "int (length bd) \<le> INT_MAX"
    and "list_all (decodable (length bl) (length bd)) ms"
    and "pending s = emitted (fold send ms idle_port)"
  shows "\<exists>rs l' s'. receive_all bl bd s = (rs, Running l' s')
    \<and> list_all2 received rs (map (\<lambda>m. ([], packet_of m)) ms)
    \<and> tracks l' Idle \<and> pending s' = [] \<and> emitted s' = emitted s"
proof -
  let ?ds = "map (\<lambda>m. ([], packet_of m)) ms"
  from assms(3) have "list_all (well_framed (length bl) (length bd)) ?ds"
    by (simp add: list_all_iff decodable_def)
  moreover have "pending s = concat (map wire_of ?ds) @ []"
    using assms(4) by (simp add: emitted_fold comp_def wire_of_message)
  moreover have "noise_of ?ds = []"
    by (simp add: noise_of_def comp_def)
  ultimately show ?thesis
    using receive_frames [OF assms(1,2), of ?ds "[]" s] by (simp add: notices_def)
qed

theorem roundtrip_session_witness:
  "\<exists>rs l' s'. receive_all [0, 0, 0, 0] [0, 0, 0, 0, 0]
       (receiving (emitted (fold send
          [SendInt (bytes_of ''Ts'') 0x12345678, SendCharPair (bytes_of ''Lk'') 0x4C 0x52,
           SendErrorNumAsText 7] idle_port)))
     = (rs, Running l' s')
    \<and> list_all2 received rs
        [([], bytes_of ''Ts'', PACKET_INT, [0x12, 0x34, 0x56, 0x78]),
         ([], bytes_of ''Lk'', PACKET_CHAR, [0x4C, 0x52]),
         ([], bytes_of ''Err'', PACKET_CHAR, [7])]
    \<and> tracks l' Idle \<and> pending s' = []
    \<and> emitted s' = []"
proof -
  let ?ms = "[SendInt (bytes_of ''Ts'') 0x12345678, SendCharPair (bytes_of ''Lk'') 0x4C 0x52,
       SendErrorNumAsText 7]"
  have ok: "list_all (decodable (length [0, 0, 0, 0 :: byte]) (length [0, 0, 0, 0, 0 :: byte])) ?ms"
    by code_simp
  have packets: "map (\<lambda>m. ([], packet_of m)) ?ms =
      [([] :: byte list, bytes_of ''Ts'', PACKET_INT, [0x12, 0x34, 0x56, 0x78]),
       ([], bytes_of ''Lk'', PACKET_CHAR, [0x4C, 0x52]),
       ([], bytes_of ''Err'', PACKET_CHAR, [7])]"
    by code_simp
  from roundtrip_session [OF _ _ ok, of "receiving (emitted (fold send ?ms idle_port))",
      unfolded packets]
  show ?thesis
    by (simp add: INT_MAX_def)
qed

end
