(* ===== verification/Transmit.thy ===== *)
theory Transmit
  imports Packet_Encoder
begin

text \<open>
  The senders beside the transmit interrupt. In theory \<open>Packet_Encoder\<close> a write
  puts a byte into a transmit queue without limit and the flush moves the queue
  to the wire at once. Here the queue holds at most \<open>cap\<close> bytes, a write waits
  while it is full, the flush waits until it is empty, and the transmit
  interrupt moves one byte to the wire at any moment. A sender is the list of
  its writes followed by the flush: by \<open>sends_as_writes\<close> an operation sends
  \<open>pkt\<close> exactly when it is the flush after the writes of the bytes of \<open>pkt\<close>.
  The lemmas show that some step is always
  possible until the sender is done, that every step lowers a measure, that
  the queue never grows beyond its capacity, and the main result that every
  run ends in the port that the sender of theory \<open>Packet_Encoder\<close> returns.
\<close>

section \<open>Writes and the flush as steps\<close>

datatype action = Write byte | Flush

type_synonym job = "action list \<times> serial"

definition job_of :: "byte list \<Rightarrow> action list" where
  "job_of pkt = map Write pkt @ [Flush]"

inductive out_step :: "nat \<Rightarrow> job \<Rightarrow> job \<Rightarrow> bool" for cap :: nat where
  enqueue: "length (txq s) < cap \<Longrightarrow> out_step cap (Write b # as, s) (as, Serial_write b s)"
| flushed: "txq s = [] \<Longrightarrow> out_step cap (Flush # as, s) (as, s)"
| drain: "txq s = b # bs \<Longrightarrow> out_step cap (as, s) (as, s\<lparr>txq := bs, wire := wire s @ [b]\<rparr>)"

inductive_cases out_stepE: "out_step cap (as, s) j"

code_pred out_step .

fun written :: "action list \<Rightarrow> byte list" where
  "written [] = []"
| "written (Write b # as) = b # written as"
| "written (Flush # as) = written as"

fun backlog :: "job \<Rightarrow> nat" where
  "backlog (as, s) = 2 * length as + length (txq s)"

fun drained :: "job \<Rightarrow> bool" where
  "drained (as, s) \<longleftrightarrow> as = [] \<and> txq s = []"

section \<open>Progress, measure and stream\<close>

lemma fold_write: "fold Serial_write pkt s = s\<lparr>txq := txq s @ pkt\<rparr>"
  by (induction pkt arbitrary: s) (simp_all add: Serial_write_def)

lemma sends_as_writes: "sends f pkt s \<longleftrightarrow> f s = Serial_flush (fold Serial_write pkt s)"
  by (simp add: sends_def fold_write Serial_flush_def)

lemma written_job_of [simp]: "written (job_of pkt) = pkt"
  by (induction pkt) (simp_all add: job_of_def)

lemma out_progress:
  assumes "0 < cap" and "\<not> drained j"
  shows "\<exists>j'. out_step cap j j'"
proof -
  obtain as s where j: "j = (as, s)"
    by (cases j)
  show ?thesis
  proof (cases "txq s")
    case (Cons b bs)
    with j show ?thesis
      by (auto intro: drain)
  next
    case Nil
    with assms j obtain a as' where as: "as = a # as'"
      by (cases as) auto
    show ?thesis
    proof (cases a)
      case (Write b)
      from Nil assms(1) have "out_step cap (Write b # as', s) (as', Serial_write b s)"
        by (intro enqueue) simp
      with j as Write show ?thesis
        by blast
    next
      case Flush
      from Nil have "out_step cap (Flush # as', s) (as', s)"
        by (rule flushed)
      with j as Flush show ?thesis
        by blast
    qed
  qed
qed

lemma drained_no_step: "drained j \<Longrightarrow> \<not> out_step cap j j'"
  by (auto elim: out_step.cases)

lemma out_backlog: "out_step cap j j' \<Longrightarrow> backlog j' < backlog j"
  by (induction rule: out_step.induct) (simp_all add: Serial_write_def)

lemma steps_backlog: "(out_step cap ^^ n) j j' \<Longrightarrow> n + backlog j' \<le> backlog j"
proof (induction n arbitrary: j')
  case 0
  then show ?case by simp
next
  case (Suc n)
  then obtain j'' where "(out_step cap ^^ n) j j''" and "out_step cap j'' j'"
    by auto
  with Suc.IH [of j''] out_backlog [of cap j'' j'] show ?case
    by simp
qed

text \<open>
  What a step keeps: the bytes on the wire, in the queue and still to be
  written are together the same stream, and the receiving side of the port
  and the clock are untouched.
\<close>

definition carries :: "serial \<Rightarrow> byte list \<Rightarrow> job \<Rightarrow> bool" where
  "carries s pkt j \<longleftrightarrow>
     emitted (snd j) @ written (fst j) = emitted s @ pkt
     \<and> rx (snd j) = rx s \<and> incoming (snd j) = incoming s \<and> elapsed (snd j) = elapsed s"

lemma carries_start: "carries s pkt (job_of pkt, s)"
  by (simp add: carries_def)

lemma out_carries: "out_step cap j j' \<Longrightarrow> carries s pkt j \<Longrightarrow> carries s pkt j'"
  by (induction rule: out_step.induct) (simp_all add: carries_def emitted_def Serial_write_def)

lemma star_carries: "(out_step cap)\<^sup>*\<^sup>* j j' \<Longrightarrow> carries s pkt j \<Longrightarrow> carries s pkt j'"
  by (induction rule: rtranclp_induct) (auto intro: out_carries)

lemma out_within:
  "out_step cap j j' \<Longrightarrow> length (txq (snd j)) \<le> cap \<Longrightarrow> length (txq (snd j')) \<le> cap"
  by (induction rule: out_step.induct) (simp_all add: Serial_write_def)

lemma star_within:
  "(out_step cap)\<^sup>*\<^sup>* j j' \<Longrightarrow> length (txq (snd j)) \<le> cap \<Longrightarrow> length (txq (snd j')) \<le> cap"
  by (induction rule: rtranclp_induct) (auto intro: out_within)

lemma carries_drained:
  assumes "carries s pkt j" and "drained j"
  shows "j = ([], s\<lparr>wire := wire s @ txq s @ pkt, txq := []\<rparr>)"
proof -
  obtain as s' where j: "j = (as, s')"
    by (cases j)
  with assms have "wire s' = wire s @ txq s @ pkt" "txq s' = []" "rx s' = rx s"
    "incoming s' = incoming s" "elapsed s' = elapsed s" "as = []"
    by (simp_all add: carries_def emitted_def)
  with j show ?thesis
    by simp
qed

lemma drained_iff_no_step: "0 < cap \<Longrightarrow> drained j \<longleftrightarrow> (\<forall>j'. \<not> out_step cap j j')"
  using out_progress [of cap j] drained_no_step [of j cap] by blast

lemma out_completes:
  assumes "0 < cap"
  shows "\<exists>j'. (out_step cap)\<^sup>*\<^sup>* j j' \<and> drained j'"
proof (induction j rule: measure_induct_rule [where f = backlog])
  case (less j)
  show ?case
  proof (cases "drained j")
    case True
    then show ?thesis
      by blast
  next
    case False
    with assms obtain j1 where step: "out_step cap j j1"
      using out_progress by blast
    then have "backlog j1 < backlog j"
      by (rule out_backlog)
    then obtain j' where "(out_step cap)\<^sup>*\<^sup>* j1 j'" and "drained j'"
      using less.IH by blast
    with step show ?thesis
      by (blast intro: converse_rtranclp_into_rtranclp)
  qed
qed

lemma sends_rest:
  assumes "sends f pkt s" and "0 < cap"
  shows "(out_step cap)\<^sup>*\<^sup>* (job_of pkt, s) j \<and> drained j \<longleftrightarrow> j = ([], f s)"
proof
  assume "(out_step cap)\<^sup>*\<^sup>* (job_of pkt, s) j \<and> drained j"
  then have "carries s pkt j" and "drained j"
    by (auto intro: star_carries carries_start)
  then have "j = ([], s\<lparr>wire := wire s @ txq s @ pkt, txq := []\<rparr>)"
    by (rule carries_drained)
  with assms(1) show "j = ([], f s)"
    by (simp add: sends_def)
next
  assume j: "j = ([], f s)"
  from assms(2) obtain j' where run: "(out_step cap)\<^sup>*\<^sup>* (job_of pkt, s) j'" and rest: "drained j'"
    using out_completes by blast
  then have "carries s pkt j'"
    by (auto intro: star_carries carries_start)
  then have "j' = ([], s\<lparr>wire := wire s @ txq s @ pkt, txq := []\<rparr>)"
    using rest by (rule carries_drained)
  with assms(1) j run rest show "(out_step cap)\<^sup>*\<^sup>* (job_of pkt, s) j \<and> drained j"
    by (simp add: sends_def)
qed

section \<open>Properties\<close>

text \<open>
  No wait without end. The blocking writes and the flush never wait for ever, and the transmit
  queue stays within its capacity. Every sequence of steps of a sender and of
  the transmit interrupt, from a port whose queue is within the capacity, has
  at most two steps for each byte of the packet, two for the flush and one
  for each byte queued at the start, and leaves the queue within the capacity.
\<close>

theorem transmit_bounded:
  assumes "(out_step cap ^^ n) (job_of pkt, s) j" and "length (txq s) \<le> cap"
  shows "n \<le> 2 * length pkt + 2 + length (txq s) \<and> length (txq (snd j)) \<le> cap"
proof -
  from assms(1) have "(out_step cap)\<^sup>*\<^sup>* (job_of pkt, s) j"
    by (rule relpowp_imp_rtranclp)
  with assms(2) have "length (txq (snd j)) \<le> cap"
    using star_within [of cap "(job_of pkt, s)" j] by simp
  with steps_backlog [OF assms(1)] show ?thesis
    by (simp add: job_of_def)
qed

theorem transmit_bounded_witness:
  "Suc (Suc (Suc 0)) \<le> 2 * length [0x41 :: byte] + 2 + length (txq idle_port)
   \<and> length (txq (snd ([] :: action list, idle_port\<lparr>wire := [0x41]\<rparr>))) \<le> 1"
proof -
  have "out_step 1 (job_of [0x41], idle_port) ([Flush], idle_port\<lparr>txq := [0x41]\<rparr>)"
    using enqueue [of idle_port 1 "0x41" "[Flush]"]
    by (simp add: job_of_def idle_port_def Serial_write_def)
  moreover have "out_step 1 ([Flush], idle_port\<lparr>txq := [0x41]\<rparr>) ([Flush], idle_port\<lparr>wire := [0x41]\<rparr>)"
    using drain [of "idle_port\<lparr>txq := [0x41]\<rparr>" "0x41" "[]" 1 "[Flush]"]
    by (simp add: idle_port_def)
  moreover have "out_step 1 ([Flush], idle_port\<lparr>wire := [0x41]\<rparr>) ([], idle_port\<lparr>wire := [0x41]\<rparr>)"
    using flushed [of "idle_port\<lparr>wire := [0x41]\<rparr>" 1 "[]"]
    by (simp add: idle_port_def)
  ultimately have "(out_step 1 ^^ Suc (Suc (Suc 0))) (job_of [0x41], idle_port)
      ([], idle_port\<lparr>wire := [0x41]\<rparr>)"
    by (auto intro: relcomppI)
  from transmit_bounded [OF this] show ?thesis
    by (simp add: idle_port_def)
qed

end
