(* ===== verification/Handshake.thy ===== *)
theory Handshake
  imports Serial_Port
begin

text \<open>
  The handshake of the source, \<open>SerialHandshake\<close>: the inner loop that writes an
  \<open>A\<close> and waits 500 ms while nothing can be read is \<open>hail\<close>, the outer loop
  that reads one byte and returns on a \<open>P\<close> is \<open>handshake_loop\<close>. Both are
  total functions over the port state: the peer's deliveries are a finite
  script, and when the script is exhausted with nothing left to read the
  source would hail for ever, which is the result \<open>Calling\<close>. The lemmas
  describe what the inner loop has written and waited, relate the result of
  the outer loop to the position of the first \<open>P\<close> in the input, and give the
  latency of the handshake in waiting periods.
\<close>

section \<open>The handshake of the source\<close>

definition HAIL :: byte where
  "HAIL = 0x41"

definition REPLY :: byte where
  "REPLY = 0x50"

definition PERIOD :: nat where
  "PERIOD = 500"

datatype handshake = Calling serial | Shaken serial

function hail :: "serial \<Rightarrow> serial" where
  "hail s =
     (if Serial_available s \<le> 0 \<and> incoming s \<noteq> []
      then hail (delay PERIOD (Serial_write_char HAIL s))
      else s)"
  by pat_completeness auto
termination
  by (relation "measure cost") (auto simp: cost_delay_write)

declare hail.simps [simp del]

lemma cost_hail: "cost (hail s) \<le> cost s"
proof (induction s rule: hail.induct)
  case (1 s)
  show ?case
  proof (cases "Serial_available s \<le> 0 \<and> incoming s \<noteq> []")
    case True
    then have "cost (hail s) = cost (hail (delay PERIOD (Serial_write_char HAIL s)))"
      by (subst hail.simps) simp
    also have "\<dots> \<le> cost (delay PERIOD (Serial_write_char HAIL s))"
      using True by (rule "1.IH")
    also have "\<dots> < cost s"
      using True by (simp add: cost_delay_write)
    finally show ?thesis by simp
  next
    case False
    then show ?thesis by (subst hail.simps) auto
  qed
qed

function handshake_loop :: "serial \<Rightarrow> handshake" where
  "handshake_loop s0 =
     (let s = hail s0 in
      if 0 < Serial_available s then
        (let (inByte, s') = Serial_read s in
         if inByte = sint REPLY then Shaken (delay PERIOD s') else handshake_loop s')
      else Calling s)"
  by pat_completeness auto
termination
proof (relation "measure cost")
  fix s0 s x inByte s'
  assume "s = hail s0" "0 < Serial_available s" "x = Serial_read s" "(inByte, s') = x"
  then have "cost s' < cost s"
    using cost_read [of s] by (metis snd_conv)
  with \<open>s = hail s0\<close> show "(s', s0) \<in> measure cost"
    using cost_hail [of s0] by simp
qed simp

definition SerialHandshake :: "serial \<Rightarrow> handshake" where
  "SerialHandshake s = handshake_loop s"

declare handshake_loop.simps [simp del]


section \<open>The inner loop\<close>

definition hailed :: "nat \<Rightarrow> serial \<Rightarrow> serial \<Rightarrow> bool" where
  "hailed k s s' \<longleftrightarrow>
     pending s' = pending s \<and> emitted s' = emitted s @ replicate k HAIL
     \<and> elapsed s' = elapsed s + PERIOD * k"

lemma hailed_refl [simp]: "hailed 0 s s"
  by (simp add: hailed_def)

lemma hailed_trans: "hailed j s s' \<Longrightarrow> hailed k s' s'' \<Longrightarrow> hailed (j + k) s s''"
  by (simp add: hailed_def replicate_add distrib_left)

lemma hailed_step [simp]: "hailed (Suc 0) s (delay PERIOD (Serial_write HAIL s))"
  by (simp add: hailed_def)

lemma hail_ready: "0 < Serial_available s \<Longrightarrow> hail s = s"
  by (subst hail.simps) simp

lemma hail_dead: "incoming s = [] \<Longrightarrow> hail s = s"
  by (subst hail.simps) simp

lemma hail_wait:
  "Serial_available s \<le> 0 \<Longrightarrow> incoming s \<noteq> [] \<Longrightarrow>
   hail s = hail (delay PERIOD (Serial_write HAIL s))"
  by (subst hail.simps) simp

lemma hail_hailed:
  "\<exists>k \<le> length (incoming s). hailed k s (hail s)
     \<and> (k = 0 \<longrightarrow> hail s = s) \<and> (0 < k \<longrightarrow> txq (hail s) = [])
     \<and> (Serial_available (hail s) \<le> 0 \<longrightarrow> incoming (hail s) = [])
     \<and> length (incoming (hail s)) + k = length (incoming s)"
proof (induction s rule: hail.induct)
  case (1 s)
  show ?case
  proof (cases "Serial_available s \<le> 0 \<and> incoming s \<noteq> []")
    case True
    let ?s = "delay PERIOD (Serial_write HAIL s)"
    from "1.IH" [OF True] have "\<exists>k \<le> length (incoming ?s). hailed k ?s (hail ?s)
        \<and> (k = 0 \<longrightarrow> hail ?s = ?s) \<and> (0 < k \<longrightarrow> txq (hail ?s) = [])
        \<and> (Serial_available (hail ?s) \<le> 0 \<longrightarrow> incoming (hail ?s) = [])
        \<and> length (incoming (hail ?s)) + k = length (incoming ?s)"
      by simp
    then obtain k where k: "k \<le> length (incoming ?s)" "hailed k ?s (hail ?s)"
      "k = 0 \<longrightarrow> hail ?s = ?s" "0 < k \<longrightarrow> txq (hail ?s) = []"
      "Serial_available (hail ?s) \<le> 0 \<longrightarrow> incoming (hail ?s) = []"
      "length (incoming (hail ?s)) + k = length (incoming ?s)"
      by blast
    from True have eq: "hail s = hail ?s"
      by (simp add: hail_wait)
    from True have len: "Suc (length (incoming ?s)) = length (incoming s)"
      by (cases "incoming s") (simp_all add: tick_Cons)
    from k(3,4) have tx: "txq (hail ?s) = []"
      by (cases "k = 0") simp_all
    have "hailed (Suc 0 + k) s (hail ?s)"
      using hailed_step k(2) by (rule hailed_trans)
    with k len tx eq show ?thesis
      by (intro exI [of _ "Suc k"]) auto
  next
    case False
    then have "hail s = s"
      by (auto simp: hail_ready hail_dead)
    with False show ?thesis
      by (intro exI [of _ 0]) auto
  qed
qed


section \<open>The outer loop\<close>

definition answered :: "serial \<Rightarrow> serial \<Rightarrow> bool" where
  "answered s s' \<longleftrightarrow>
     txq s' = [] \<and>
     (\<exists>pre k. pending s = pre @ REPLY # pending s' \<and> REPLY \<notin> set pre
        \<and> k \<le> length (incoming s)
        \<and> emitted s' = emitted s @ replicate k HAIL
        \<and> elapsed s' = elapsed s + PERIOD * Suc k)"

definition unanswered :: "serial \<Rightarrow> serial \<Rightarrow> bool" where
  "unanswered s s' \<longleftrightarrow>
     REPLY \<notin> set (pending s) \<and> pending s' = [] \<and>
     (\<exists>k \<le> length (incoming s).
        emitted s' = emitted s @ replicate k HAIL \<and> elapsed s' = elapsed s + PERIOD * k)"

fun shook :: "serial \<Rightarrow> handshake \<Rightarrow> bool" where
  "shook s (Shaken s') \<longleftrightarrow> answered s s'"
| "shook s (Calling s') \<longleftrightarrow> unanswered s s'"

lemma REPLY_ascii: "uint REPLY < 128"
  by (simp add: REPLY_def)

lemma read_REPLY: "uint b = sint REPLY \<longleftrightarrow> b = REPLY"
  by (rule read_eq_marker) (rule REPLY_ascii)

lemma pending_rx: "rx s = b # bs \<Longrightarrow> pending s = b # pending (s\<lparr>rx := bs\<rparr>)"
  by (simp add: pending_def)

lemma emitted_rx [simp]: "emitted (s\<lparr>rx := bs\<rparr>) = emitted s"
  by (simp add: emitted_def)

lemma pending_rx_update [simp]: "pending (s\<lparr>rx := bs\<rparr>) = bs @ concat (incoming s)"
  by (simp add: pending_def)

lemma answered_now: "rx s = REPLY # bs \<Longrightarrow> answered s (delay PERIOD (s\<lparr>rx := bs\<rparr>))"
  unfolding answered_def
  by (intro conjI exI [of _ "[]"] exI [of _ 0]) (simp_all add: pending_rx)

lemma answered_skip:
  assumes "rx s = b # bs" and "b \<noteq> REPLY" and "answered (s\<lparr>rx := bs\<rparr>) s'"
  shows "answered s s'"
proof -
  from assms(3) obtain pre k where "txq s' = []"
    "pending (s\<lparr>rx := bs\<rparr>) = pre @ REPLY # pending s'" "REPLY \<notin> set pre"
    "k \<le> length (incoming s)" "emitted s' = emitted s @ replicate k HAIL"
    "elapsed s' = elapsed s + PERIOD * Suc k"
    by (auto simp: answered_def)
  with assms(1,2) show ?thesis
    unfolding answered_def
    by (intro conjI exI [of _ "b # pre"] exI [of _ k]) (simp_all add: pending_rx)
qed

lemma answered_hailed:
  assumes "hailed j s0 s" and "length (incoming s) + j = length (incoming s0)" and "answered s s'"
  shows "answered s0 s'"
proof -
  from assms(3) obtain pre k where "txq s' = []"
    "pending s = pre @ REPLY # pending s'" "REPLY \<notin> set pre"
    "k \<le> length (incoming s)" "emitted s' = emitted s @ replicate k HAIL"
    "elapsed s' = elapsed s + PERIOD * Suc k"
    by (auto simp: answered_def)
  with assms(1,2) show ?thesis
    unfolding answered_def hailed_def
    by (intro conjI exI [of _ pre] exI [of _ "j + k"]) (simp_all add: replicate_add distrib_left)
qed

lemma unanswered_skip:
  "rx s = b # bs \<Longrightarrow> b \<noteq> REPLY \<Longrightarrow> unanswered (s\<lparr>rx := bs\<rparr>) s' \<Longrightarrow> unanswered s s'"
  by (auto simp: unanswered_def pending_rx)

lemma unanswered_hailed:
  assumes "hailed j s0 s" and "length (incoming s) + j = length (incoming s0)" and "unanswered s s'"
  shows "unanswered s0 s'"
proof -
  from assms(3) obtain k where "REPLY \<notin> set (pending s)" "pending s' = []"
    "k \<le> length (incoming s)" "emitted s' = emitted s @ replicate k HAIL"
    "elapsed s' = elapsed s + PERIOD * k"
    by (auto simp: unanswered_def)
  with assms(1,2) show ?thesis
    unfolding unanswered_def hailed_def
    by (intro conjI exI [of _ "j + k"]) (simp_all add: replicate_add distrib_left)
qed

lemma unanswered_dead: "rx s = [] \<Longrightarrow> incoming s = [] \<Longrightarrow> unanswered s s"
  unfolding unanswered_def by (intro conjI exI [of _ 0]) (simp_all add: pending_def)

lemma loop_silent:
  "Serial_available (hail s) \<le> 0 \<Longrightarrow> handshake_loop s = Calling (hail s)"
  using handshake_loop.simps [of s] by (simp add: Let_def)

lemma loop_reply:
  "rx (hail s) = REPLY # bs \<Longrightarrow> handshake_loop s = Shaken (delay PERIOD ((hail s)\<lparr>rx := bs\<rparr>))"
  using handshake_loop.simps [of s] by (simp add: Let_def Serial_available_def Serial_read_def read_REPLY)

lemma loop_other:
  "rx (hail s) = b # bs \<Longrightarrow> b \<noteq> REPLY \<Longrightarrow>
   handshake_loop s = handshake_loop ((hail s)\<lparr>rx := bs\<rparr>)"
  using handshake_loop.simps [of s] by (simp add: Let_def Serial_available_def Serial_read_def read_REPLY)

lemma handshake_loop_shook: "shook s (handshake_loop s)"
proof (induction s rule: handshake_loop.induct)
  case (1 s0)
  let ?s = "hail s0"
  obtain j where j: "hailed j s0 ?s" "length (incoming ?s) + j = length (incoming s0)"
    and dead: "Serial_available ?s \<le> 0 \<longrightarrow> incoming ?s = []"
    using hail_hailed [of s0] by blast
  show ?case
  proof (cases "rx ?s")
    case Nil
    with dead have "unanswered ?s ?s"
      by (simp add: unanswered_dead Serial_available_def)
    with j have "unanswered s0 ?s"
      by (rule unanswered_hailed)
    with Nil show ?thesis
      by (simp add: loop_silent Serial_available_def)
  next
    case (Cons b bs)
    show ?thesis
    proof (cases "b = REPLY")
      case True
      with Cons have "answered ?s (delay PERIOD (?s\<lparr>rx := bs\<rparr>))"
        by (simp add: answered_now)
      with j have "answered s0 (delay PERIOD (?s\<lparr>rx := bs\<rparr>))"
        by (rule answered_hailed)
      with Cons True show ?thesis
        by (simp add: loop_reply)
    next
      case False
      with Cons have "shook (?s\<lparr>rx := bs\<rparr>) (handshake_loop (?s\<lparr>rx := bs\<rparr>))"
        by (intro "1.IH" [of ?s "Serial_read ?s" "uint b"])
          (simp_all add: Serial_available_def Serial_read_def read_REPLY)
      with Cons False j have "shook s0 (handshake_loop (?s\<lparr>rx := bs\<rparr>))"
        by (cases "handshake_loop (?s\<lparr>rx := bs\<rparr>)")
          (auto intro: answered_hailed answered_skip unanswered_hailed unanswered_skip)
      with Cons False show ?thesis
        by (simp add: loop_other)
    qed
  qed
qed


lemma hail_silent:
  "rx s = [] \<Longrightarrow> incoming s = replicate n [] @ c # cs \<Longrightarrow> c \<noteq> [] \<Longrightarrow>
   hail s = s\<lparr>rx := c, incoming := cs, wire := wire s @ txq s @ replicate (Suc n) HAIL,
              txq := [], elapsed := elapsed s + PERIOD * Suc n\<rparr>"
proof (induction n arbitrary: s)
  case 0
  then have "hail s = hail (delay PERIOD (Serial_write HAIL s))"
    by (simp add: hail_wait Serial_available_def)
  also from 0 have "\<dots> = delay PERIOD (Serial_write HAIL s)"
    by (intro hail_ready) (simp add: Serial_available_def tick_Cons)
  finally show ?case
    using 0 by (simp add: serial_defs)
next
  case (Suc n)
  let ?s = "delay PERIOD (Serial_write HAIL s)"
  from Suc.prems have "hail s = hail ?s"
    by (simp add: hail_wait Serial_available_def)
  also from Suc.prems have "\<dots> = ?s\<lparr>rx := c, incoming := cs,
      wire := wire ?s @ txq ?s @ replicate (Suc n) HAIL, txq := [],
      elapsed := elapsed ?s + PERIOD * Suc n\<rparr>"
    by (intro Suc.IH) (simp_all add: tick_Cons)
  finally show ?case
    using Suc.prems by (simp add: serial_defs replicate_append_same)
qed

lemma shook_Shaken: "shook s r \<Longrightarrow> REPLY \<in> set (pending s) \<Longrightarrow> \<exists>s'. r = Shaken s' \<and> answered s s'"
  by (cases r) (auto simp: unanswered_def)

lemma shook_Calling: "shook s r \<Longrightarrow> REPLY \<notin> set (pending s) \<Longrightarrow> \<exists>s'. r = Calling s' \<and> unanswered s s'"
  by (cases r) (auto simp: answered_def)

lemma answered_rest:
  assumes "answered s s'" and "pending s = pre @ REPLY # rest" and "REPLY \<notin> set pre"
  shows "pending s' = rest"
proof -
  from assms(1) obtain pre' where "pending s = pre' @ REPLY # pending s'" "REPLY \<notin> set pre'"
    by (auto simp: answered_def)
  with assms(2,3) show ?thesis
    using first_split_unique [of REPLY pre pre' rest "pending s'"] by simp
qed

lemma handshake_first_reply:
  assumes "pending s = pre @ REPLY # rest" and "REPLY \<notin> set pre"
  obtains s' where "SerialHandshake s = Shaken s'" and "pending s' = rest" and "answered s s'"
proof -
  from assms(1) have "REPLY \<in> set (pending s)"
    by simp
  with handshake_loop_shook [of s] obtain s' where run: "handshake_loop s = Shaken s'" "answered s s'"
    by (blast dest: shook_Shaken)
  moreover from run(2) assms have "pending s' = rest"
    by (rule answered_rest)
  ultimately show ?thesis
    by (intro that [of s']) (simp_all add: SerialHandshake_def)
qed

section \<open>Properties\<close>

text \<open>
  C17: The handshake completes exactly on the first \<open>P\<close>. When the input that is
  pending or still to arrive contains a \<open>P\<close>, \<open>SerialHandshake\<close> returns; every byte
  before the first \<open>P\<close> has been read and dropped, the bytes after it are left
  unread, and the transmit queue is empty.
\<close>

theorem handshake_completes:
  assumes "pending s = pre @ REPLY # rest" and "REPLY \<notin> set pre"
  shows "\<exists>s'. SerialHandshake s = Shaken s' \<and> pending s' = rest \<and> txq s' = []"
  using handshake_first_reply [OF assms] by (metis answered_def)

theorem handshake_completes_witness:
  "\<exists>s'. SerialHandshake (scripted [[], [0x58], [0x50, 0x3C]]) = Shaken s'
     \<and> pending s' = [0x3C] \<and> txq s' = []"
  using handshake_completes [of "scripted [[], [0x58], [0x50, 0x3C]]" "[0x58]" "[0x3C]"]
  by (simp add: REPLY_def)

text \<open>
  C27: Without a \<open>P\<close> the handshake never returns. When no \<open>P\<close> is pending or
  still to arrive, \<open>SerialHandshake\<close> reads and drops all input and is left
  hailing a silent line.
\<close>

theorem handshake_blocks:
  assumes "REPLY \<notin> set (pending s)"
  shows "\<exists>s'. SerialHandshake s = Calling s' \<and> pending s' = []"
proof -
  from handshake_loop_shook [of s] assms
  obtain s' where "handshake_loop s = Calling s'" "unanswered s s'"
    by (blast dest: shook_Calling)
  then show ?thesis
    by (simp add: SerialHandshake_def unanswered_def)
qed

theorem handshake_blocks_witness:
  "\<exists>s'. SerialHandshake (scripted [[], [0x58], [0x70]]) = Calling s' \<and> pending s' = []"
  using handshake_blocks [of "scripted [[], [0x58], [0x70]]"]
  by (simp add: REPLY_def)

text \<open>
  C28: Latency of the handshake. When \<open>SerialHandshake\<close> returns it has written
  only hails, one for each waiting period of 500 ms, it has waited one period
  more after the reply, and the number of hails is at most the number of
  deliveries the peer makes.
\<close>

theorem handshake_latency:
  assumes "SerialHandshake s = Shaken s'"
  shows "\<exists>k \<le> length (incoming s).
           emitted s' = emitted s @ replicate k HAIL \<and> elapsed s' = elapsed s + PERIOD * (k + 1)"
proof -
  from handshake_loop_shook [of s] assms have "answered s s'"
    by (simp add: SerialHandshake_def)
  then show ?thesis
    unfolding answered_def by auto
qed

theorem handshake_latency_witness:
  "\<exists>s'. SerialHandshake (scripted [[], [REPLY]]) = Shaken s'
     \<and> (\<exists>k \<le> length (incoming (scripted [[], [REPLY]])).
           emitted s' = emitted (scripted [[], [REPLY]]) @ replicate k HAIL
         \<and> elapsed s' = elapsed (scripted [[], [REPLY]]) + PERIOD * (k + 1))"
proof -
  have shook: "SerialHandshake (scripted [[], [REPLY]])
      = Shaken (delay PERIOD (idle_port\<lparr>wire := [HAIL, HAIL], elapsed := 1000\<rparr>))"
    by code_simp
  from handshake_latency [OF shook] shook show ?thesis
    by blast
qed

text \<open>
  An instance with exact timing. A peer that answers after \<open>n\<close> silent periods. On a line that stays
  silent for \<open>n\<close> periods and then delivers a \<open>P\<close>, \<open>SerialHandshake\<close> returns after
  writing \<open>n + 1\<close> hails and waiting \<open>n + 2\<close> periods of 500 ms, and leaves what
  follows the \<open>P\<close> unread.
\<close>

theorem handshake_after_silence:
  "\<exists>s'. SerialHandshake (scripted (replicate n [] @ (REPLY # bs) # cs)) = Shaken s'
     \<and> emitted s' = replicate (Suc n) HAIL \<and> txq s' = []
     \<and> elapsed s' = PERIOD * (n + 2) \<and> pending s' = bs @ concat cs"
proof -
  let ?s = "scripted (replicate n [] @ (REPLY # bs) # cs)"
  have "hail ?s = ?s\<lparr>rx := REPLY # bs, incoming := cs,
      wire := wire ?s @ txq ?s @ replicate (Suc n) HAIL, txq := [],
      elapsed := elapsed ?s + PERIOD * Suc n\<rparr>"
    by (rule hail_silent) (simp_all add: scripted_def idle_port_def)
  then have "rx (hail ?s) = REPLY # bs" and rest: "incoming (hail ?s) = cs"
    "wire (hail ?s) = replicate (Suc n) HAIL" "txq (hail ?s) = []"
    "elapsed (hail ?s) = PERIOD * Suc n"
    by (simp_all add: scripted_def idle_port_def)
  then have "handshake_loop ?s = Shaken (delay PERIOD ((hail ?s)\<lparr>rx := bs\<rparr>))"
    by (simp only: loop_reply)
  moreover from rest have "emitted (hail ?s) = replicate (Suc n) HAIL"
    by (simp add: emitted_def)
  ultimately show ?thesis
    using rest by (simp add: SerialHandshake_def)
qed

end
