(* ===== verification/Char_Array.thy ===== *)
theory Char_Array
  imports OpBox_Prelude
begin

text \<open>
  The string utility of the source, \<open>CopyCharArray\<close>: its \<open>for\<close> loop as the
  total function \<open>copy_loop\<close> over the index and the target array, with every
  array access checked, followed by the terminating store and the call of
  \<open>strlen\<close>. The lemmas give the result of the loop in closed form and the
  two ways in which the function leaves its arrays.
\<close>

section \<open>The copy of the source\<close>

function copy_loop :: "byte list \<Rightarrow> byte list \<Rightarrow> int \<Rightarrow> int \<Rightarrow> fault + int \<times> byte list" where
  "copy_loop source target max_num_data i =
     (if i < max_num_data then
        (case fetch source i of
           Inl e \<Rightarrow> Inl e
         | Inr c \<Rightarrow>
             if c \<noteq> 0 then
               (case store target i c of
                  Inl e \<Rightarrow> Inl e
                | Inr target' \<Rightarrow>
                    (case incr i of
                       Inl e \<Rightarrow> Inl e
                     | Inr i' \<Rightarrow> copy_loop source target' max_num_data i'))
             else Inr (i, target))
      else Inr (i, target))"
  by pat_completeness auto
termination
  by (relation "measure (\<lambda>(source, target, max_num_data, i). nat (max_num_data - i))")
    (auto simp: incr_Inr_iff)

definition strlen_checked :: "byte list \<Rightarrow> fault + int" where
  "strlen_checked a = (if 0 \<in> set a then Inr (strlen a) else Inl BufferOverrun)"

definition CopyCharArray :: "byte list \<Rightarrow> byte list \<Rightarrow> int \<Rightarrow> fault + int \<times> byte list" where
  "CopyCharArray source target max_num_data =
     (case copy_loop source target max_num_data 0 of
        Inl e \<Rightarrow> Inl e
      | Inr (i, target1) \<Rightarrow>
          (case store target1 i 0 of
             Inl e \<Rightarrow> Inl e
           | Inr target2 \<Rightarrow>
               (case strlen_checked target2 of
                  Inl e \<Rightarrow> Inl e
                | Inr n \<Rightarrow> Inr (n, target2))))"

declare copy_loop.simps [simp del]

section \<open>What is copied\<close>

definition copied :: "byte list \<Rightarrow> int \<Rightarrow> byte list" where
  "copied source max_num_data = take (nat max_num_data) (cstr source)"

definition readable :: "byte list \<Rightarrow> int \<Rightarrow> bool" where
  "readable source max_num_data \<longleftrightarrow> 0 \<in> set source \<or> max_num_data \<le> int (length source)"

lemma length_copied: "length (copied source n) = min (nat n) (length (cstr source))"
  by (simp add: copied_def min.commute)

lemma set_copied: "0 \<notin> set (copied source n)"
  using set_cstr [of source] by (auto simp: copied_def dest: in_set_takeD)

lemma cstr_nth: "j < length (cstr a) \<Longrightarrow> cstr a ! j = a ! j"
  by (simp add: cstr_def takeWhile_nth)

lemma cstr_nth_nonzero: "j < length (cstr a) \<Longrightarrow> a ! j \<noteq> 0"
  using set_cstr [of a] nth_mem [of j "cstr a"] cstr_nth [of j a] by auto

lemma cstr_short_iff: "length (cstr a) < length a \<longleftrightarrow> 0 \<in> set a"
  by (induction a) auto

lemma cstr_stop: "0 \<in> set a \<Longrightarrow> a ! length (cstr a) = 0"
  by (induction a) auto

lemma take_cstr: "j \<le> length (cstr a) \<Longrightarrow> take j a = take j (cstr a)"
proof (induction a arbitrary: j)
  case Nil
  then show ?case by simp
next
  case (Cons c a)
  then show ?case by (cases j) (auto split: if_splits)
qed

lemma strlen_checked_terminated [simp]:
  "0 \<notin> set xs \<Longrightarrow> strlen_checked (xs @ 0 # ys) = Inr (int (length xs))"
  by (simp add: strlen_checked_def)


lemma copied_nth: "j < length (copied source n) \<Longrightarrow> copied source n ! j = source ! j"
  by (simp add: copied_def cstr_nth)

lemma copied_in_source:
  assumes "j < length (copied source n)"
  shows "int j < n" and "j < length source" and "source ! j \<noteq> 0"
  using assms length_cstr_le [of source] by (auto simp: length_copied cstr_nth_nonzero)

section \<open>The loop\<close>

lemma copy_loop_step:
  assumes "j < length (copied source n)" and "j < length target" and "n \<le> INT_MAX"
  shows "copy_loop source target n (int j)
    = copy_loop source (target[j := source ! j]) n (int (Suc j))"
  using copied_in_source [OF assms(1)] assms(2,3) copy_loop.simps [of source target n "int j"]
  by (simp add: add.commute)

lemma copy_loop_overrun_step:
  assumes "j < length (copied source n)" and "length target \<le> j"
  shows "copy_loop source target n (int j) = Inl BufferOverrun"
  using copied_in_source [OF assms(1)] assms(2) copy_loop.simps [of source target n "int j"]
  by simp

lemma copy_loop_stop:
  assumes "readable source n" and "j = length (copied source n)"
  shows "copy_loop source target n (int j) = Inr (int j, target)"
proof (cases "int j < n")
  case True
  with assms(2) have stop: "j = length (cstr source)"
    by (simp add: length_copied min_def split: if_splits)
  with True assms(1) have "0 \<in> set source"
    using cstr_short_iff [of source] by (auto simp: readable_def)
  with stop have "j < length source" "source ! j = 0"
    by (simp_all add: cstr_short_iff cstr_stop)
  with True show ?thesis
    using copy_loop.simps [of source target n "int j"] by simp
next
  case False
  then show ?thesis
    using copy_loop.simps [of source target n "int j"] by simp
qed

lemma copy_loop_run:
  assumes "readable source n" and "n \<le> INT_MAX"
    and "length (copied source n) \<le> length target" and "j \<le> length (copied source n)"
  shows "copy_loop source target n (int j)
    = Inr (int (length (copied source n)),
           take j target @ drop j (copied source n) @ drop (length (copied source n)) target)"
  using assms(3,4)
proof (induction "length (copied source n) - j" arbitrary: j target)
  case 0
  then have "j = length (copied source n)"
    by simp
  with assms(1) show ?case
    by (simp add: copy_loop_stop)
next
  case (Suc d)
  let ?t = "target[j := source ! j]"
  from Suc.hyps(2) have j: "j < length (copied source n)"
    by simp
  with Suc.prems have "copy_loop source target n (int j) = copy_loop source ?t n (int (Suc j))"
    using assms(2) by (intro copy_loop_step) simp_all
  also from Suc.hyps(2) Suc.prems j have "\<dots> = Inr (int (length (copied source n)),
      take (Suc j) ?t @ drop (Suc j) (copied source n) @ drop (length (copied source n)) ?t)"
    by (intro Suc.hyps(1)) simp_all
  finally have "copy_loop source target n (int j) = Inr (int (length (copied source n)),
      take (Suc j) ?t @ drop (Suc j) (copied source n) @ drop (length (copied source n)) ?t)" .
  moreover from j Suc.prems have "take (Suc j) ?t = take j target @ [copied source n ! j]"
    by (simp add: take_Suc_update copied_nth)
  moreover from j have "copied source n ! j # drop (Suc j) (copied source n) = drop j (copied source n)"
    by (simp add: Cons_nth_drop_Suc)
  ultimately show ?case
    using j by simp
qed

lemma copy_loop_overrun:
  assumes "n \<le> INT_MAX" and "length target < length (copied source n)" and "j \<le> length target"
  shows "copy_loop source target n (int j) = Inl BufferOverrun"
  using assms(2,3)
proof (induction "length target - j" arbitrary: j target)
  case 0
  then show ?case
    by (intro copy_loop_overrun_step) simp_all
next
  case (Suc d)
  let ?t = "target[j := source ! j]"
  from Suc have "copy_loop source target n (int j) = copy_loop source ?t n (int (Suc j))"
    using assms(1) by (intro copy_loop_step) simp_all
  also from Suc have "\<dots> = Inl BufferOverrun"
    by (intro Suc.hyps(1)) simp_all
  finally show ?case .
qed


lemma unreadable_copied:
  assumes "\<not> readable source n"
  shows "copied source n = source" and "int (length source) < n"
  using assms by (auto simp: readable_def copied_def)

lemma copy_loop_unreadable:
  assumes "\<not> readable source n" and "n \<le> INT_MAX" and "j \<le> length source"
  shows "copy_loop source target n (int j) = Inl BufferOverrun"
  using assms(3)
proof (induction "length source - j" arbitrary: j target)
  case 0
  with unreadable_copied(2) [OF assms(1)] show ?case
    using copy_loop.simps [of source target n "int j"] by simp
next
  case (Suc d)
  then have j: "j < length (copied source n)"
    by (simp add: unreadable_copied(1) [OF assms(1)])
  show ?case
  proof (cases "j < length target")
    case True
    with j have "copy_loop source target n (int j)
        = copy_loop source (target[j := source ! j]) n (int (Suc j))"
      using assms(2) by (intro copy_loop_step)
    also from Suc have "\<dots> = Inl BufferOverrun"
      by (intro Suc.hyps(1)) simp_all
    finally show ?thesis .
  next
    case False
    with j show ?thesis
      by (intro copy_loop_overrun_step) simp_all
  qed
qed

lemma CopyCharArray_cases:
  assumes "n \<le> INT_MAX"
  shows "CopyCharArray source target n =
    (if readable source n \<and> length (copied source n) < length target
     then Inr (int (length (copied source n)),
               copied source n @ 0 # drop (Suc (length (copied source n))) target)
     else Inl BufferOverrun)"
proof -
  let ?m = "length (copied source n)"
  consider (ok) "readable source n" "?m < length target"
    | (full) "readable source n" "?m = length target"
    | (over) "length target < ?m"
    | (unreadable) "\<not> readable source n"
    by linarith
  then show ?thesis
  proof cases
    case ok
    then have "copy_loop source target n 0 = Inr (int ?m, copied source n @ drop ?m target)"
      using copy_loop_run [OF ok(1) assms, of target 0] by simp
    moreover from ok have "drop ?m target = target ! ?m # drop (Suc ?m) target"
      by (simp add: Cons_nth_drop_Suc)
    then have "(copied source n @ drop ?m target)[?m := 0]
        = copied source n @ 0 # drop (Suc ?m) target"
      by (simp add: update_append_fill)
    ultimately show ?thesis
      using ok set_copied [of source n] by (simp add: CopyCharArray_def)
  next
    case full
    then have "copy_loop source target n 0 = Inr (int ?m, copied source n @ drop ?m target)"
      using copy_loop_run [OF full(1) assms, of target 0] by simp
    with full show ?thesis
      by (simp add: CopyCharArray_def)
  next
    case over
    then show ?thesis
      using copy_loop_overrun [OF assms, of target source 0] by (simp add: CopyCharArray_def)
  next
    case unreadable
    then show ?thesis
      using copy_loop_unreadable [OF _ assms, of source 0 target] by (simp add: CopyCharArray_def)
  qed
qed


lemmas array_ground = INT_MAX_def copied_def readable_def

section \<open>Properties\<close>

text \<open>
  C18: \<open>CopyCharArray\<close> copies a string cut at \<open>max_num_data\<close> characters. When
  the source can be read up to the point where the loop stops and the copied
  characters leave room for the terminator, the function returns the number of
  characters copied, and the target holds them followed by a zero, with the
  elements behind the zero untouched.
\<close>

theorem CopyCharArray_copies:
  assumes "n \<le> INT_MAX" and "readable source n" and "length (copied source n) < length target"
  shows "CopyCharArray source target n
    = Inr (int (length (copied source n)),
           copied source n @ 0 # drop (Suc (length (copied source n))) target)"
  using CopyCharArray_cases [OF assms(1), of source target] assms(2,3) by simp

theorem CopyCharArray_copies_witness:
  "CopyCharArray (bytes_of ''Go'' @ [0, 0x21]) (replicate 5 0x2A) 4
     = Inr (2, bytes_of ''Go'' @ 0 # replicate 2 0x2A)"
  using CopyCharArray_copies [of 4 "bytes_of ''Go'' @ [0, 0x21]" "replicate 5 0x2A"]
  by (simp add: array_ground)

text \<open>
  C32: What \<open>CopyCharArray\<close> returns is the length of the string it left in the
  target. Whenever the function returns, the target has kept its size, the
  string in it is the source string cut at \<open>max_num_data\<close> characters, and the
  returned number is the length of that string.
\<close>

theorem CopyCharArray_returns_strlen:
  assumes "n \<le> INT_MAX" and "CopyCharArray source target n = Inr (k, t)"
  shows "k = strlen t \<and> length t = length target \<and> cstr t = take (nat n) (cstr source)"
proof -
  from assms have ok: "length (copied source n) < length target"
    and k: "k = int (length (copied source n))"
    and t: "t = copied source n @ 0 # drop (Suc (length (copied source n))) target"
    using CopyCharArray_cases [OF assms(1), of source target] by (simp_all split: if_splits)
  from t have "cstr t = copied source n"
    using set_copied [of source n] by simp
  with k t ok show ?thesis
    by (simp add: strlen_def copied_def)
qed

theorem CopyCharArray_returns_strlen_witness:
  "\<exists>k t. CopyCharArray (bytes_of ''Go'' @ [0, 0x21]) (replicate 5 0x2A) 4 = Inr (k, t)
     \<and> k = strlen t \<and> length t = length (replicate 5 (0x2A :: byte))
     \<and> cstr t = take (nat 4) (cstr (bytes_of ''Go'' @ [0, 0x21]))"
proof -
  have copy: "CopyCharArray (bytes_of ''Go'' @ [0, 0x21]) (replicate 5 0x2A) 4
      = Inr (2, bytes_of ''Go'' @ [0, 0x2A, 0x2A])"
    by code_simp
  have "(4 :: int) \<le> INT_MAX"
    by (simp add: INT_MAX_def)
  from CopyCharArray_returns_strlen [OF this copy] copy show ?thesis
    by blast
qed

text \<open>
  C19: The terminator is written one past the end of a full target. When
  \<open>max_num_data\<close> is the size of the target or more and the source string has at
  least as many characters as the target has elements, \<open>CopyCharArray\<close> writes
  outside the target.
\<close>

theorem CopyCharArray_overrun:
  assumes "n \<le> INT_MAX" and "int (length target) \<le> n"
    and "length target \<le> length (cstr source)"
  shows "CopyCharArray source target n = Inl BufferOverrun"
proof -
  from assms(2,3) have "length target \<le> length (copied source n)"
    by (simp add: length_copied)
  then show ?thesis
    using CopyCharArray_cases [OF assms(1), of source target] by simp
qed

theorem CopyCharArray_overrun_witness:
  "CopyCharArray (bytes_of ''Stim'' @ [0]) (replicate 4 0) 4 = Inl BufferOverrun"
  using CopyCharArray_overrun [of 4 "replicate 4 0" "bytes_of ''Stim'' @ [0]"]
  by (simp add: INT_MAX_def)

text \<open>
  C33: A source without terminator is read past its end. When the source array
  holds no zero and \<open>max_num_data\<close> exceeds its size, \<open>CopyCharArray\<close> reads
  outside the source or writes outside the target.
\<close>

theorem CopyCharArray_unterminated:
  assumes "n \<le> INT_MAX" and "0 \<notin> set source" and "int (length source) < n"
  shows "CopyCharArray source target n = Inl BufferOverrun"
  using CopyCharArray_cases [OF assms(1), of source target] assms(2,3)
  by (simp add: readable_def)

theorem CopyCharArray_unterminated_witness:
  "CopyCharArray (bytes_of ''Go'') (replicate 8 0) 8 = Inl BufferOverrun"
  using CopyCharArray_unterminated [of 8 "bytes_of ''Go''" "replicate 8 0"]
  by (simp add: INT_MAX_def)

text \<open>
  C34: The safe call of \<open>CopyCharArray\<close>. With a terminated source and a
  \<open>max_num_data\<close> that is not negative and smaller than the size of the target,
  the function returns a length between zero and \<open>max_num_data\<close>.
\<close>

theorem CopyCharArray_safe:
  assumes "n \<le> INT_MAX" and "0 \<in> set source" and "0 \<le> n" and "n < int (length target)"
  shows "\<exists>k t. CopyCharArray source target n = Inr (k, t) \<and> 0 \<le> k \<and> k \<le> n"
proof -
  from assms(3,4) have "length (copied source n) < length target"
    by (simp add: length_copied min_less_iff_disj nat_less_iff)
  with assms(2,3) show ?thesis
    using CopyCharArray_cases [OF assms(1), of source target]
    by (simp add: readable_def length_copied)
qed

theorem CopyCharArray_safe_witness:
  "\<exists>k t. CopyCharArray (bytes_of ''Stim'' @ [0]) (replicate 4 0) 3 = Inr (k, t)
     \<and> 0 \<le> k \<and> k \<le> 3"
  using CopyCharArray_safe [of 3 "bytes_of ''Stim'' @ [0]" "replicate 4 0"]
  by (simp add: INT_MAX_def)

end
