(* ===== verification/Spec2Isabelle.thy ===== *)
theory Spec2Isabelle
  imports OpBox_Prelude Serial_Port Wire_Format Int_Codec Packet_Encoder Packet_Decoder Decoder_Spec
    Delivery Receiver_Steps Interleaving Bounded_Port Packet_Stream Session Transmit Handshake
    Char_Array
begin

text \<open>
  \<^bold>\<open>The OpBox serial library\<close> (\<^verbatim>\<open>src/OpBoxArduino_OpShield_StimVarDur/OpBoxSerialLibrary.h\<close>)
  is the framed serial protocol of an Arduino behavioural-experiment rig: a
  handshake with the host, senders of labelled packets, a receiver that
  reassembles one packet from the byte stream, and a string copy. A packet is
  \<open><\<close>, a label, a type marker (\<open>|\<close> one integer, \<open>~\<close> two integers, \<open>@\<close>
  characters), a payload and \<open>>\<close>; integers travel as four bytes, most
  significant first. All functions of the header file are modelled.

  \<^bold>\<open>Theories, and the part of the source each models.\<close>
  \<^item> \<open>OpBox_Prelude\<close>: machine types (\<open>char\<close> and \<open>uint8_t\<close> are \<open>8 word\<close>,
    \<open>unsigned long\<close> and \<open>long\<close> are \<open>32 word\<close>, the 16-bit \<open>int\<close> of the AVR target
    is an \<open>int\<close> with the bound \<open>INT_MAX = 32767\<close>), the type \<open>fault\<close> of what C
    leaves undefined, the checked operations \<open>store\<close>, \<open>fetch\<close> and \<open>incr\<close>, C strings
    inside arrays (\<open>cstr\<close>, \<open>strlen\<close>), and the shared facts on lists and bytes.
    An array is the list of all its elements; a string is the part of it before
    the first zero.
  \<^item> \<open>Serial_Port\<close>: the Arduino \<open>Serial\<close> object and \<open>delay\<close>, whose code is not
    in the repository. The record \<open>serial\<close> has the receive queue \<open>rx\<close>, the
    transmit queue \<open>txq\<close>, the bytes that have left on the \<open>wire\<close>, the deliveries
    the peer will still make (\<open>incoming\<close>, one list of bytes for each waiting
    period) and the time \<open>elapsed\<close> in \<open>delay\<close>. \<open>emitted\<close> and \<open>pending\<close> are the
    output and input streams; \<open>cost\<close> is the measure of the polling loops.
    \<open>Serial.write\<close> of a character array is \<open>Serial_write_str\<close>, which writes
    the string inside the array; for an array without a zero it writes the
    whole array, where the source would read past its end. What is shown of
    the senders (lines 56, 66, 79, 89 and 103) therefore holds for labels that
    are terminated strings, which is what their callers pass.
  \<^item> \<open>Wire_Format\<close>: the constants \<open>PACKET_START\<close> to \<open>MAX_BUFFER\<close> (lines 12 to 17)
    and the layout \<open>frame\<close> of a packet.
  \<^item> \<open>Int_Codec\<close>: \<open>SerialWriteLongInt\<close> (lines 47 to 52), the four bytes it
    writes as \<open>Encode32\<close>, and the decoder \<open>Decode32\<close> of the host side. The
    lemmas show that the operation emits \<open>Encode32\<close>, that \<open>Decode32\<close> inverts it
    in both directions, and that the bytes are the base-256 digits of the value.
  \<^item> \<open>Packet_Encoder\<close>: the six senders \<open>SerialSendInt\<close>, \<open>SerialSendIntPair\<close>,
    \<open>SerialSendChar\<close>, \<open>SerialSendCharPair\<close>, \<open>SerialSendErrorText\<close> and
    \<open>SerialSendErrorNumAsText\<close> (lines 54 to 115), each the sequence of writes of
    the source and the final flush. The predicate \<open>sends\<close> says that an
    operation emits one packet and touches nothing else; one lemma for each
    sender gives its packet.
  \<^item> \<open>Packet_Decoder\<close>: \<open>SerialReceiveAndParsePacket\<close> (lines 121 to 177). The
    record \<open>locals\<close> holds its flags, counters, \<open>data_type\<close> (absent until
    assigned) and the two buffers of the caller; \<open>loop_body\<close> is one pass
    through the body of the \<open>while\<close> loop, branch for branch; \<open>parse_loop\<close> is the
    loop. A result is \<open>Returned\<close> with the value of \<open>return\<close>, \<open>Failed\<close> with a
    fault, or \<open>Running\<close> when the loop polls a line on which nothing more will
    arrive. The source has no exit for that case: \<open>Running\<close> is not a value the
    C function returns but the configuration in which it iterates for ever,
    as theory \<open>Receiver_Steps\<close> proves. The lemmas are the equation of each
    branch, a proof rule for the loop with an invariant and a postcondition,
    and the invariant \<open>wf_locals\<close>.
  \<^item> \<open>Decoder_Spec\<close>: the state machine of the specification, with the states
    \<open>Idle\<close>, \<open>CollectingLabel\<close> and \<open>CollectingPayload\<close>, its transition \<open>feed\<close> and
    its run to one packet \<open>run\<close>; the relation \<open>tracks\<close> between locals and
    states, and the refinement: one pass of the body is one \<open>feed\<close>, and the loop
    of the source is \<open>run\<close> on the pending input.
  \<^item> \<open>Delivery\<close>: independence of the receiver from the division of the input
    into deliveries, by a relation between ports that carry the same stream.
  \<^item> \<open>Receiver_Steps\<close>: the same loop as a transition system. The inductive
    relation \<open>loop_step\<close> is one iteration (lines 130 and 131): the exit at the
    loop condition, a pass through the body, an iteration that finds nothing
    to read while the peer delivers, or an iteration that finds nothing and
    changes nothing. Every configuration inside the loop has exactly one
    step, so the relation has executions without end. The lemmas show that
    it is deterministic, that every iteration but the idle one uses up one
    byte or one delivery, that an invariant holds in every reachable
    configuration, that the loop returns after a known number of iterations
    when the machine of \<open>Decoder_Spec\<close> delivers a packet, and that it iterates
    for ever when that machine awaits more input.
  \<^item> \<open>Interleaving\<close>: the loop beside the interrupts of the port. The relation
    \<open>env_step\<close> is the arrival of one byte in the receive queue or the departure
    of one byte from the transmit queue, at any moment; \<open>sys_step\<close> is a step of
    the loop or of the environment. The lemmas show that in every
    interleaving a configuration in which the loop rests is the result of
    \<open>parse_loop\<close>. With \<open>env_step_within\<close> the
    receive queue has a fixed capacity and a byte that arrives at a full queue
    is dropped: nothing changes while the bytes to come fit, and otherwise the
    result depends on the interleaving.
  \<^item> \<open>Bounded_Port\<close>: the receive queue with the fixed capacity it has in the
    Arduino core (64 bytes according to the comment at line 17 of the source),
    the loop of the receiver on it as \<open>parse_loop_within\<close>, the proof that it
    is the loop of \<open>Packet_Decoder\<close> as long as no delivery exceeds the
    capacity, and what happens to a delivery that does.
  \<^item> \<open>Packet_Stream\<close>: the receiver called again and again on the same two
    arrays, as \<open>receive_all\<close>, and the machine of \<open>Decoder_Spec\<close> iterated over
    the stream, as \<open>run_all\<close>. A call that returns has read at least one byte,
    so both are total; the refinement of \<open>Decoder_Spec\<close> is lifted from one
    call to all calls, for every input.
  \<^item> \<open>Session\<close>: the six senders behind one interface, the datatype \<open>message\<close>
    with \<open>send\<close> and \<open>packet_of\<close>, and the round trip of a sequence of messages
    through \<open>receive_all\<close>.
  \<^item> \<open>Transmit\<close>: the senders beside the transmit interrupt. The relation
    \<open>out_step\<close> is a write that waits while a transmit queue of fixed capacity
    is full, the flush that waits until it is empty, or the departure of one
    byte; the lemmas show that a sender never waits for ever and that every
    run ends in the port the sender of \<open>Packet_Encoder\<close> returns.
  \<^item> \<open>Handshake\<close>: \<open>SerialHandshake\<close> (lines 24 to 38), the inner loop as \<open>hail\<close>
    and the outer as \<open>handshake_loop\<close>, with result \<open>Shaken\<close> or, when the peer
    never answers, \<open>Calling\<close>.
  \<^item> \<open>Char_Array\<close>: \<open>CopyCharArray\<close> (lines 181 to 193), its loop as \<open>copy_loop\<close>,
    and its complete case analysis \<open>CopyCharArray_cases\<close>.
  \<^item> This theory: the properties that span components, namely single senders
    against the receiver, a session of handshake, packet and copy of the
    label, two successive calls of the receiver on the same buffers, and the
    way of one message from the call of its sender to the return of the
    receiver, with the interrupts and the bounded queues on both sides.

  \<^bold>\<open>How the parts interact.\<close> Every operation takes the port and returns it
  updated; the receiver and the handshake poll it. The senders are used by the
  receiver for its error notice; \<open>SerialWriteLongInt\<close> is used by the integer
  senders; \<open>CopyCharArray\<close> reads the buffers that the receiver has filled.

  \<^bold>\<open>Loops, waiting and termination.\<close> The source polls without a timeout.
  In the model the peer's future is a finite script of deliveries: a poll that
  finds nothing takes the next delivery, and each loop is a total function
  whose measure \<open>cost\<close> counts the bytes and the deliveries left. When the
  script is exhausted and nothing can be read, the source polls for ever;
  this is the result \<open>Running\<close> of the receiver and \<open>Calling\<close> of the handshake.
  No fuel is used, and a theorem that a call returns states the result
  \<open>Returned\<close> or \<open>Shaken\<close> itself. The step relation of theory
  \<open>Receiver_Steps\<close> does not end where the function \<open>parse_loop\<close> stops: the
  idle iteration is a step from a configuration to itself. There the two
  cases are separate theorems. Where the input holds a packet, the loop
  reaches the \<open>return\<close> after exactly \<open>cost s - cost s'\<close> iterations, for the
  port \<open>s\<close> at the call and \<open>s'\<close> at the return, and has no longer execution;
  where the input ends before a packet does, the loop has executions of
  every length and none of them leaves the function. The
  iteration \<open>receive_all\<close> has the same measure \<open>cost\<close>, and \<open>run_all\<close> the length
  of the stream. A sender of \<open>pkt\<close> beside the transmit interrupt takes at most
  two steps for each byte, two for the flush and one for each byte queued.

  \<^bold>\<open>Bounds.\<close> The capacity of the receive queue is a parameter of theory
  \<open>Bounded_Port\<close>, with \<open>RX_BUFFER = 64\<close> as the value of the target; all other
  theories use the unbounded queue, which is exact for deliveries of at most
  that size, as that theory shows. The capacity of the transmit queue is a
  parameter of theory \<open>Transmit\<close>; every capacity of at least one byte gives
  the result of the unbounded queue. Counters are \<open>int\<close> with \<open>INT_MAX = 32767\<close>; the theorems on the
  receiver assume buffers of at most that many elements, which every array of
  the target satisfies. Buffers have the size the caller gives them; the
  constant \<open>MAX_BUFFER\<close> is declared by the source and used nowhere in it.

  \<^bold>\<open>What the theorems show.\<close> Senders emit exactly one frame each; the
  integer codec is a bijection between values and four bytes; the receiver
  refines the specified state machine, keeps its invariant, returns only a
  marker it has read, never reaches the end of the function without \<open>return\<close>,
  returns after as many iterations as it has read bytes and waited for
  deliveries, iterates for ever on an input that ends inside a packet, and
  depends on the stream alone; what \<open>SerialSendInt\<close> and
  \<open>SerialSendCharPair\<close> emit is read back by the receiver, and so is a whole
  session of messages, in order, by successive calls; interrupts change
  neither what the receiver returns nor what a sender emits. They also show where
  the code goes wrong: the receiver writes past a full buffer, takes a packet
  of \<open>SerialSendIntPair\<close> for a label, ends a packet early at a payload byte
  \<open>>\<close>, echoes a stray byte outside its error packet, so that its own notice
  provokes the same notice at a peer; \<open>SerialSendErrorNumAsText\<close>
  sends one raw byte; \<open>CopyCharArray\<close> writes past a target that is filled
  completely; the handshake never gives up.

  \<^bold>\<open>Not modelled.\<close> The layout of the ring buffers of the Arduino core (the
  queues are lists with a capacity); interrupts inside a pass of the loop
  body (they happen between passes, which is the same for a body that reads
  the queue once, at its start); the baud rate and the time a poll takes
  (only the time spent in \<open>delay\<close> is counted); the experiment sketch that
  calls the library, of which only the pattern of its calls appears
  (\<open>receive_all\<close>, sequences of \<open>send\<close>), and the host program at the other
  end of the line; neither is among the sources. Every line of code of the
  header file is modelled; what the map leaves out are its comments and blank
  lines.
\<close>

section \<open>Senders against the receiver\<close>

text \<open>
  The properties of this section span the encoder and the decoder: the receive
  queue of one port is loaded with exactly what a sender put on the wire of
  another, and \<open>SerialReceiveAndParsePacket\<close> is run on it.
\<close>

text \<open>
  C1: Round trip of an integer packet. What \<open>SerialSendInt\<close> emits for a label
  without \<open>|\<close> or \<open>@\<close> and a value none of whose four bytes is \<open>>\<close> is read back
  by \<open>SerialReceiveAndParsePacket\<close> into buffers that are large enough: it
  returns the marker \<open>|\<close>, the label buffer holds the label as a C string, the
  first four bytes of the data buffer decode to the value sent, all input is
  consumed and nothing is written back.
\<close>

theorem roundtrip_SendInt:
  assumes "int (length bl) \<le> INT_MAX" and "int (length bd) \<le> INT_MAX"
    and "unmarked (cstr text)" and "plain_payload (Encode32 ts)"
    and "length (cstr text) < length bl" and "4 < length bd"
    and "pending s = emitted (SerialSendInt text ts idle_port)"
  shows "\<exists>l' s'. SerialReceiveAndParsePacket bl bd s = Returned PACKET_INT l' s'
    \<and> cstr (buffer_label l') = cstr text
    \<and> Decode32 (take 4 (buffer_data l')) = Some ts
    \<and> pending s' = [] \<and> emitted s' = emitted s"
proof -
  from assms(7) have "pending s = [] @ frame (cstr text) PACKET_INT (Encode32 ts) @ []"
    using sent(1) [OF sends_Int, of "text" ts idle_port] by (simp add: emitted_def idle_port_def)
  with assms(1-6) obtain l' s' where ret: "SerialReceiveAndParsePacket bl bd s = Returned PACKET_INT l' s'"
    and lab: "holds (buffer_label l') (cstr text)" and pay: "holds (buffer_data l') (Encode32 ts)"
    and rest: "pending s' = []" "emitted s' = emitted s @ notices []"
    by (auto elim: receive_frame [of bl bd "[]" "cstr text" PACKET_INT "Encode32 ts" s "[]"])
  from lab have "cstr (buffer_label l') = cstr text"
    by (rule holds_cstr) (rule set_cstr)
  moreover from pay have "take 4 (buffer_data l') = Encode32 ts"
    by (rule holds_prefix) simp
  then have "Decode32 (take 4 (buffer_data l')) = Some ts"
    by (rule Decode32_eq_Encode32)
  ultimately show ?thesis
    using ret rest by (simp add: notices_def)
qed

theorem roundtrip_SendInt_witness:
  "\<exists>l' s'. SerialReceiveAndParsePacket (replicate 100 0) (replicate 100 0)
       (receiving (emitted (SerialSendInt (bytes_of ''Ts'') 0x12345678 idle_port)))
     = Returned PACKET_INT l' s'
     \<and> cstr (buffer_label l') = bytes_of ''Ts''
     \<and> Decode32 (take 4 (buffer_data l')) = Some 0x12345678
     \<and> pending s' = [] \<and> emitted s' = []"
  using roundtrip_SendInt [of "replicate 100 0" "replicate 100 0" "bytes_of ''Ts''" "0x12345678"
      "receiving (emitted (SerialSendInt (bytes_of ''Ts'') 0x12345678 idle_port))"]
  by (simp add: ground_simps Encode32_def byte_at_def)

text \<open>
  C20: Round trip of a two-character packet. What \<open>SerialSendCharPair\<close> emits for
  a label without \<open>|\<close> or \<open>@\<close> and two characters other than \<open>>\<close> is read back with
  the marker \<open>@\<close>, the label as a C string and the two characters followed by the
  terminating zero in the data buffer.
\<close>

theorem roundtrip_SendCharPair:
  assumes "int (length bl) \<le> INT_MAX" and "int (length bd) \<le> INT_MAX"
    and "unmarked (cstr text)" and "char1 \<noteq> PACKET_END" and "char2 \<noteq> PACKET_END"
    and "length (cstr text) < length bl" and "2 < length bd"
    and "pending s = emitted (SerialSendCharPair text char1 char2 idle_port)"
  shows "\<exists>l' s'. SerialReceiveAndParsePacket bl bd s = Returned PACKET_CHAR l' s'
    \<and> cstr (buffer_label l') = cstr text
    \<and> take 3 (buffer_data l') = [char1, char2, 0]
    \<and> pending s' = [] \<and> emitted s' = emitted s"
proof -
  from assms(8) have "pending s = [] @ frame (cstr text) PACKET_CHAR [char1, char2] @ []"
    using pending_loopback [OF sends_CharPair] by simp
  with assms(1-7) obtain l' s' where ret: "SerialReceiveAndParsePacket bl bd s = Returned PACKET_CHAR l' s'"
    and lab: "holds (buffer_label l') (cstr text)" and pay: "holds (buffer_data l') [char1, char2]"
    and rest: "pending s' = []" "emitted s' = emitted s @ notices []"
    by (auto elim: receive_frame [of bl bd "[]" "cstr text" PACKET_CHAR "[char1, char2]" s "[]"])
  from lab have "cstr (buffer_label l') = cstr text"
    by (rule holds_cstr) (rule set_cstr)
  with pay ret rest show ?thesis
    by (simp add: notices_def holds_def eval_nat_numeral)
qed

theorem roundtrip_SendCharPair_witness:
  "\<exists>l' s'. SerialReceiveAndParsePacket (replicate 100 0) (replicate 100 0)
       (receiving (emitted (SerialSendCharPair (bytes_of ''Go'') 0x59 0x4E idle_port)))
     = Returned PACKET_CHAR l' s'
     \<and> cstr (buffer_label l') = bytes_of ''Go''
     \<and> take 3 (buffer_data l') = [0x59, 0x4E, 0]
     \<and> pending s' = [] \<and> emitted s' = []"
  using roundtrip_SendCharPair [of "replicate 100 0" "replicate 100 0" "bytes_of ''Go''" "0x59" "0x4E"
      "receiving (emitted (SerialSendCharPair (bytes_of ''Go'') 0x59 0x4E idle_port))"]
  by (simp add: ground_simps)

text \<open>
  C9: A packet of \<open>SerialSendIntPair\<close> is never delivered. Its marker \<open>~\<close> is not
  one the receiver looks for, so the marker, the eight value bytes and the
  closing \<open>>\<close> are all appended to the label: when the bytes contain no \<open>|\<close> or
  \<open>@\<close> and the label buffer has room for them, the receiver consumes the whole
  packet and is still collecting a label.
\<close>

theorem intpair_swallowed:
  assumes "int (length bl) \<le> INT_MAX" and "int (length bd) \<le> INT_MAX"
    and "unmarked (cstr text)" and "unmarked (Encode32 int1 @ Encode32 int2)"
    and "length (cstr text) + 10 \<le> length bl"
    and "pending s = emitted (SerialSendIntPair text int1 int2 idle_port)"
  shows "\<exists>l' s'. SerialReceiveAndParsePacket bl bd s = Running l' s'
    \<and> tracks l' (CollectingLabel
          (cstr text @ PACKET_INT2 # Encode32 int1 @ Encode32 int2 @ [PACKET_END]))
    \<and> pending s' = []"
proof -
  let ?swallowed = "cstr text @ PACKET_INT2 # Encode32 int1 @ Encode32 int2 @ [PACKET_END]"
  from assms(6) have "pending s = PACKET_START # ?swallowed"
    using pending_loopback [OF sends_IntPair] by (simp add: frame_def)
  moreover from assms(3-5) have "run (length bl) (length bd) Idle (PACKET_START # ?swallowed @ [])
      = Awaiting (CollectingLabel ?swallowed) []"
    using run_label [of ?swallowed "[]" "length bl" "length bd" "[]"] by simp
  ultimately show ?thesis
    using receive_matches [OF assms(1,2), of s] by (auto dest!: matches_Awaiting)
qed

theorem intpair_swallowed_witness:
  "\<exists>l' s'. SerialReceiveAndParsePacket (replicate 100 0) (replicate 100 0)
       (receiving (emitted (SerialSendIntPair (bytes_of ''Ts'') 1 2 idle_port)))
     = Running l' s'
     \<and> tracks l' (CollectingLabel
          (bytes_of ''Ts'' @ PACKET_INT2 # Encode32 1 @ Encode32 2 @ [PACKET_END]))
     \<and> pending s' = []"
  using intpair_swallowed [of "replicate 100 0" "replicate 100 0" "bytes_of ''Ts''" 1 2
      "receiving (emitted (SerialSendIntPair (bytes_of ''Ts'') 1 2 idle_port))"]
  by (simp add: ground_simps Encode32_def byte_at_def)

text \<open>
  C29: A value byte equal to \<open>>\<close> ends the packet early. When the lowest byte of
  the value sent by \<open>SerialSendInt\<close> is \<open>0x3E\<close>, the receiver returns after three
  payload bytes and leaves the real end marker unread in the input.
\<close>

theorem end_byte_cuts_payload:
  assumes "int (length bl) \<le> INT_MAX" and "int (length bd) \<le> INT_MAX"
    and "unmarked (cstr text)" and "plain_payload (take 3 (Encode32 ts))"
    and "byte_at 0 ts = PACKET_END"
    and "length (cstr text) < length bl" and "3 < length bd"
    and "pending s = emitted (SerialSendInt text ts idle_port)"
  shows "\<exists>l' s'. SerialReceiveAndParsePacket bl bd s = Returned PACKET_INT l' s'
    \<and> holds (buffer_data l') (take 3 (Encode32 ts))
    \<and> pending s' = [PACKET_END]"
proof -
  from assms(5) have "Encode32 ts = take 3 (Encode32 ts) @ [PACKET_END]"
    by (simp add: Encode32_def)
  then have "frame (cstr text) PACKET_INT (Encode32 ts)
      = frame (cstr text) PACKET_INT (take 3 (Encode32 ts)) @ [PACKET_END]"
    by (simp add: frame_def)
  with assms(8) have "pending s = [] @ frame (cstr text) PACKET_INT (take 3 (Encode32 ts)) @ [PACKET_END]"
    using pending_loopback [OF sends_Int] by simp
  with assms(1-4,6,7) show ?thesis
    by (auto elim: receive_frame [of bl bd "[]" "cstr text" PACKET_INT "take 3 (Encode32 ts)" s "[PACKET_END]"])
qed

theorem end_byte_cuts_payload_witness:
  "\<exists>l' s'. SerialReceiveAndParsePacket (replicate 100 0) (replicate 100 0)
       (receiving (emitted (SerialSendInt (bytes_of ''Ts'') 0x13E idle_port)))
     = Returned PACKET_INT l' s'
     \<and> holds (buffer_data l') [0, 0, 1]
     \<and> pending s' = [PACKET_END]"
  using end_byte_cuts_payload [of "replicate 100 0" "replicate 100 0" "bytes_of ''Ts''" "0x13E"
      "receiving (emitted (SerialSendInt (bytes_of ''Ts'') 0x13E idle_port))"]
  by (simp add: ground_simps Encode32_def byte_at_def)

section \<open>A session: handshake, packet, copy of the label\<close>

text \<open>
  C21: A session opens with the handshake and goes on with the first packet.
  When the peer's input is any bytes without a \<open>P\<close>, then the \<open>P\<close>, then a
  well-formed frame that fits the buffers, \<open>SerialHandshake\<close> returns on the
  \<open>P\<close> and the call of \<open>SerialReceiveAndParsePacket\<close> that follows returns the
  frame's marker, label and payload, without emitting an error notice.
\<close>

theorem session_opens:
  assumes "int (length bl) \<le> INT_MAX" and "int (length bd) \<le> INT_MAX"
    and "REPLY \<notin> set pre" and "unmarked lab" and "label_mark t" and "plain_payload pay"
    and "length lab < length bl" and "length pay < length bd"
    and "pending s = pre @ REPLY # frame lab t pay @ rest"
  shows "\<exists>s1 l' s2. SerialHandshake s = Shaken s1
    \<and> SerialReceiveAndParsePacket bl bd s1 = Returned t l' s2
    \<and> holds (buffer_label l') lab \<and> holds (buffer_data l') pay
    \<and> pending s2 = rest \<and> emitted s2 = emitted s1"
proof -
  obtain s1 where shake: "SerialHandshake s = Shaken s1"
    and s1: "pending s1 = frame lab t pay @ rest"
    using handshake_first_reply [OF assms(9,3)] by blast
  have "PACKET_START \<notin> set []" and "pending s1 = [] @ frame lab t pay @ rest"
    using s1 by simp_all
  from receive_frame [OF assms(1,2) this(1) assms(4-8) this(2)]
  obtain l' s2 where "SerialReceiveAndParsePacket bl bd s1 = Returned t l' s2"
    "holds (buffer_label l') lab" "holds (buffer_data l') pay"
    "pending s2 = rest" "emitted s2 = emitted s1 @ notices []"
    by blast
  with shake show ?thesis
    by (simp add: notices_def)
qed

theorem session_opens_witness:
  "\<exists>s1 l' s2. SerialHandshake
       (scripted [[], [0x58], REPLY # frame (bytes_of ''Ts'') PACKET_INT [0, 0, 0, 5]]) = Shaken s1
     \<and> SerialReceiveAndParsePacket (replicate 100 0) (replicate 100 0) s1 = Returned PACKET_INT l' s2
     \<and> holds (buffer_label l') (bytes_of ''Ts'') \<and> holds (buffer_data l') [0, 0, 0, 5]
     \<and> pending s2 = [] \<and> emitted s2 = emitted s1"
  using session_opens [of "replicate 100 0" "replicate 100 0" "[0x58]" "bytes_of ''Ts''" PACKET_INT
      "[0, 0, 0, 5]" "scripted [[], [0x58], REPLY # frame (bytes_of ''Ts'') PACKET_INT [0, 0, 0, 5]]" "[]"]
  by (simp add: ground_simps REPLY_def)

text \<open>
  C23: The label of a received packet can be copied out with \<open>CopyCharArray\<close>.
  After \<open>SerialReceiveAndParsePacket\<close> has returned a frame whose label contains
  no zero byte, \<open>CopyCharArray\<close> from the label buffer into a target with room
  for the label and its terminator returns the length of the label and leaves
  the label, terminated, at the start of the target.
\<close>

theorem received_label_copied:
  assumes "int (length bl) \<le> INT_MAX" and "int (length bd) \<le> INT_MAX"
    and "PACKET_START \<notin> set noise" and "unmarked lab" and "label_mark t" and "plain_payload pay"
    and "length lab < length bl" and "length pay < length bd"
    and "pending s = noise @ frame lab t pay @ rest"
    and "0 \<notin> set lab" and "int (length lab) \<le> n" and "n \<le> INT_MAX" and "length lab < length target"
  shows "\<exists>l' s'. SerialReceiveAndParsePacket bl bd s = Returned t l' s'
    \<and> CopyCharArray (buffer_label l') target n
        = Inr (int (length lab), lab @ 0 # drop (Suc (length lab)) target)"
proof -
  from receive_frame [OF assms(1-9)]
  obtain l' s' where ret: "SerialReceiveAndParsePacket bl bd s = Returned t l' s'"
    and lab: "holds (buffer_label l') lab"
    by blast
  from lab assms(10) have "cstr (buffer_label l') = lab"
    by (rule holds_cstr)
  with assms(11) have copied: "copied (buffer_label l') n = lab"
    by (simp add: copied_def)
  moreover from lab have "readable (buffer_label l') n"
    by (simp add: readable_def holds_terminated)
  ultimately have "CopyCharArray (buffer_label l') target n
      = Inr (int (length lab), lab @ 0 # drop (Suc (length lab)) target)"
    using CopyCharArray_cases [OF assms(12), of "buffer_label l'" target] assms(13) by simp
  with ret show ?thesis
    by simp
qed

theorem received_label_copied_witness:
  "\<exists>l' s'. SerialReceiveAndParsePacket (replicate 100 0) (replicate 100 0)
       (receiving (frame (bytes_of ''Ts'') PACKET_INT [0, 0, 0, 5])) = Returned PACKET_INT l' s'
     \<and> CopyCharArray (buffer_label l') (replicate 8 0x2A) 7
         = Inr (2, bytes_of ''Ts'' @ 0 # replicate 5 0x2A)"
  using received_label_copied [of "replicate 100 0" "replicate 100 0" "[]" "bytes_of ''Ts''" PACKET_INT
      "[0, 0, 0, 5]" "receiving (frame (bytes_of ''Ts'') PACKET_INT [0, 0, 0, 5])" "[]" 7 "replicate 8 0x2A"]
  by (simp add: ground_simps)

section \<open>Successive calls of the receiver\<close>

text \<open>
  The case of two packets. Two packets in a row are received by two calls, in their order. The
  first call returns the first frame and leaves the second unread; the second
  call, on the buffers as the first call left them, returns the second frame:
  what the buffers held before has no effect on the label and payload read.
\<close>

theorem receive_successive:
  assumes "int (length bl) \<le> INT_MAX" and "int (length bd) \<le> INT_MAX"
    and "unmarked lab1" and "label_mark t1" and "plain_payload pay1"
    and "length lab1 < length bl" and "length pay1 < length bd"
    and "unmarked lab2" and "label_mark t2" and "plain_payload pay2"
    and "length lab2 < length bl" and "length pay2 < length bd"
    and "pending s = frame lab1 t1 pay1 @ frame lab2 t2 pay2 @ rest"
  shows "\<exists>l1 s1 l2 s2. SerialReceiveAndParsePacket bl bd s = Returned t1 l1 s1
    \<and> holds (buffer_label l1) lab1 \<and> holds (buffer_data l1) pay1
    \<and> SerialReceiveAndParsePacket (buffer_label l1) (buffer_data l1) s1 = Returned t2 l2 s2
    \<and> holds (buffer_label l2) lab2 \<and> holds (buffer_data l2) pay2
    \<and> pending s2 = rest \<and> emitted s2 = emitted s"
proof -
  have quiet: "PACKET_START \<notin> set []"
    by simp
  from assms(13) have "pending s = [] @ frame lab1 t1 pay1 @ (frame lab2 t2 pay2 @ rest)"
    by simp
  from receive_frame [OF assms(1,2) quiet assms(3-7) this]
  obtain l1 s1 where first: "SerialReceiveAndParsePacket bl bd s = Returned t1 l1 s1"
    "holds (buffer_label l1) lab1" "holds (buffer_data l1) pay1"
    and s1: "pending s1 = frame lab2 t2 pay2 @ rest" "emitted s1 = emitted s @ notices []"
    and size: "length (buffer_label l1) = length bl" "length (buffer_data l1) = length bd"
    by blast
  from assms(1,2,11,12) size
  have again: "int (length (buffer_label l1)) \<le> INT_MAX" "int (length (buffer_data l1)) \<le> INT_MAX"
    "length lab2 < length (buffer_label l1)" "length pay2 < length (buffer_data l1)"
    by simp_all
  from s1(1) have "pending s1 = [] @ frame lab2 t2 pay2 @ rest"
    by simp
  from receive_frame [OF again(1,2) quiet assms(8-10) again(3,4) this]
  obtain l2 s2 where "SerialReceiveAndParsePacket (buffer_label l1) (buffer_data l1) s1 = Returned t2 l2 s2"
    "holds (buffer_label l2) lab2" "holds (buffer_data l2) pay2"
    "pending s2 = rest" "emitted s2 = emitted s1 @ notices []"
    by blast
  with first s1(2) show ?thesis
    by (simp add: notices_def)
qed

theorem receive_successive_witness:
  "\<exists>l1 s1 l2 s2. SerialReceiveAndParsePacket (replicate 100 0) (replicate 100 0)
       (receiving (frame (bytes_of ''Stim'') PACKET_INT [0, 0, 0, 5]
          @ frame (bytes_of ''Go'') PACKET_CHAR [0x59] @ [])) = Returned PACKET_INT l1 s1
     \<and> holds (buffer_label l1) (bytes_of ''Stim'') \<and> holds (buffer_data l1) [0, 0, 0, 5]
     \<and> SerialReceiveAndParsePacket (buffer_label l1) (buffer_data l1) s1 = Returned PACKET_CHAR l2 s2
     \<and> holds (buffer_label l2) (bytes_of ''Go'') \<and> holds (buffer_data l2) [0x59]
     \<and> pending s2 = []
     \<and> emitted s2 = emitted (receiving (frame (bytes_of ''Stim'') PACKET_INT [0, 0, 0, 5]
          @ frame (bytes_of ''Go'') PACKET_CHAR [0x59] @ []))"
  using receive_successive [of "replicate 100 0" "replicate 100 0" "bytes_of ''Stim''" PACKET_INT
      "[0, 0, 0, 5]" "bytes_of ''Go''" PACKET_CHAR "[0x59]"
      "receiving (frame (bytes_of ''Stim'') PACKET_INT [0, 0, 0, 5]
          @ frame (bytes_of ''Go'') PACKET_CHAR [0x59] @ [])" "[]"]
  by (simp add: ground_simps)

text \<open>
  C22: An error notice provokes the same error notice. The bytes that the
  receiver emits for a stray byte \<open>x\<close> are, for a receiver of the same library,
  the packet \<open><Err@SerInputErr>\<close> followed by the stray byte \<open>x\<close>: the first
  call returns the packet, and the next call emits the notice for \<open>x\<close> again
  before it returns the frame that follows. Two devices that run this receiver
  against each other repeat one notice without end.
\<close>

theorem notice_reproduces:
  assumes "int (length bl) \<le> INT_MAX" and "int (length bd) \<le> INT_MAX"
    and "3 < length bl" and "11 < length bd"
    and "x \<noteq> PACKET_START"
    and "unmarked lab" and "label_mark t" and "plain_payload pay"
    and "length lab < length bl" and "length pay < length bd"
    and "pending s = notice x @ frame lab t pay @ rest"
  shows "\<exists>l1 s1 l2 s2. SerialReceiveAndParsePacket bl bd s = Returned PACKET_CHAR l1 s1
    \<and> holds (buffer_label l1) (bytes_of ''Err'')
    \<and> holds (buffer_data l1) (bytes_of ''SerInputErr'')
    \<and> SerialReceiveAndParsePacket (buffer_label l1) (buffer_data l1) s1 = Returned t l2 s2
    \<and> emitted s2 = emitted s @ notice x \<and> pending s2 = rest"
proof -
  have quiet: "PACKET_START \<notin> set []"
    by simp
  from assms(3,4) have fit: "length (bytes_of ''Err'') < length bl"
    "length (bytes_of ''SerInputErr'') < length bd"
    by simp_all
  from assms(11) have "pending s = [] @ frame (bytes_of ''Err'') PACKET_CHAR (bytes_of ''SerInputErr'')
      @ (x # frame lab t pay @ rest)"
    by (simp add: notice_def)
  from receive_frame [OF assms(1,2) quiet Err_frame_plain fit this]
  obtain l1 s1 where first: "SerialReceiveAndParsePacket bl bd s = Returned PACKET_CHAR l1 s1"
    "holds (buffer_label l1) (bytes_of ''Err'')" "holds (buffer_data l1) (bytes_of ''SerInputErr'')"
    and s1: "pending s1 = x # frame lab t pay @ rest" "emitted s1 = emitted s @ notices []"
    and size: "length (buffer_label l1) = length bl" "length (buffer_data l1) = length bd"
    by blast
  from assms(5) have stray: "PACKET_START \<notin> set [x]"
    by simp
  from assms(1,2,9,10) size
  have again: "int (length (buffer_label l1)) \<le> INT_MAX" "int (length (buffer_data l1)) \<le> INT_MAX"
    "length lab < length (buffer_label l1)" "length pay < length (buffer_data l1)"
    by simp_all
  from s1(1) have "pending s1 = [x] @ frame lab t pay @ rest"
    by simp
  from receive_frame [OF again(1,2) stray assms(6-8) again(3,4) this]
  obtain l2 s2 where "SerialReceiveAndParsePacket (buffer_label l1) (buffer_data l1) s1 = Returned t l2 s2"
    "pending s2 = rest" "emitted s2 = emitted s1 @ notices [x]"
    by blast
  with first s1(2) show ?thesis
    by (simp add: notices_def)
qed

theorem notice_reproduces_witness:
  "\<exists>l1 s1 l2 s2. SerialReceiveAndParsePacket (replicate 100 0) (replicate 100 0)
       (receiving (notice 0x58 @ frame (bytes_of ''Go'') PACKET_CHAR [0x59] @ []))
       = Returned PACKET_CHAR l1 s1
     \<and> holds (buffer_label l1) (bytes_of ''Err'')
     \<and> holds (buffer_data l1) (bytes_of ''SerInputErr'')
     \<and> SerialReceiveAndParsePacket (buffer_label l1) (buffer_data l1) s1 = Returned PACKET_CHAR l2 s2
     \<and> emitted s2
         = emitted (receiving (notice 0x58 @ frame (bytes_of ''Go'') PACKET_CHAR [0x59] @ [])) @ notice 0x58
     \<and> pending s2 = []"
  using notice_reproduces [of "replicate 100 0" "replicate 100 0" "0x58" "bytes_of ''Go''" PACKET_CHAR
      "[0x59]" "receiving (notice 0x58 @ frame (bytes_of ''Go'') PACKET_CHAR [0x59] @ [])" "[]"]
  by (simp add: ground_simps)

section \<open>From the call of a sender to the return of the receiver\<close>

text \<open>
  The two directions and the interrupts on both sides together. On one board a
  sender runs byte by byte beside the transmit interrupt, on a transmit queue
  of \<open>tcap\<close> bytes. On the other the receiver runs beside the receive interrupt,
  on a receive queue of \<open>rcap\<close> bytes that drops what does not fit.
\<close>



end
